theory Spec2Isabelle
  imports Main "HOL-Library.Word"
begin

section \<open>Task Master: the task store, the status lifecycle and the history log\<close>

text \<open>
  A shallow embedding of the scripts under \<^verbatim>\<open>src/scripts/task-master\<close>:
  \<^verbatim>\<open>chat.js\<close> (id allocation, completion query), \<^verbatim>\<open>context-tracker.js\<close>
  (history log, scheduler), \<^verbatim>\<open>complete.js\<close> (complete and start commands) and the
  next-task script stored in \<^verbatim>\<open>copilot.js\<close> (scheduler variant, guarded start).

  The two JSON documents are values of record types; the file system, the clock and the
  outcome of writes are fields of an explicit \<open>world\<close> that every operation takes
  and returns. Messages and summaries the scripts build from (Russian) templates are
  constructors that carry the interpolated values.
\<close>

subsection \<open>JavaScript values and library functions\<close>

text \<open>
  A string is a sequence of UTF-16 code units. The id tokens of the command line and the
  subtask ids, which the scripts split and parse, are lists of code units; \<open>str\<close>
  writes one from its ASCII characters. The strings that the scripts only copy or
  compare with their own literals (status, action, title, free text) are HOL strings.
\<close>

type_synonym codeunit = "16 word"

type_synonym jsstring = "codeunit list"

definition cu :: "char \<Rightarrow> codeunit" where
  "cu c = of_char c"

definition str :: "string \<Rightarrow> jsstring" where
  "str s = map cu s"

text \<open>
  A subtask id is read from JSON and compared with \<^verbatim>\<open>===\<close>: the generators store
  strings (\<^verbatim>\<open>`${taskId}.${index + 1}`\<close>), the completion query compares with a
  number. Both kinds of value are kept apart, as strict equality does.
\<close>

datatype jsid = IdNum int | IdStr jsstring

text \<open>
  A number is a double. The numbers the scripts compute with are integers (ids,
  priorities) and the values \<^verbatim>\<open>NaN\<close> and \<^verbatim>\<open>Infinity\<close> that \<^verbatim>\<open>parseInt\<close>
  gives: \<open>Num n\<close> is the double whose value is the integer \<open>n\<close>. A result \<open>x\<close> that
  is computed exactly is stored as the double nearest to it, \<open>to_number x\<close>: up to
  \<open>2^53\<close> that is \<open>x\<close> itself, beyond it \<open>x\<close> is rounded to 53 significant bits
  (to the neighbour whose last bit is zero when two are equally near), and what rounds
  to \<open>2^1024\<close> or more is infinite. \<open>halvings n\<close> is the number of low bits that
  \<open>n\<close> loses.
\<close>

datatype jsnum = NaN | MinusInfinity | PlusInfinity | Num int

fun halvings :: "nat \<Rightarrow> nat" where
  "halvings n = (if n < 2 ^ 53 then 0 else Suc (halvings (n div 2)))"

declare halvings.simps [simp del]

definition round_nat :: "nat \<Rightarrow> nat" where
  "round_nat n =
     (let e = halvings n; q = n div 2 ^ e; r = n mod 2 ^ e
      in if 2 ^ e < 2 * r \<or> (2 * r = 2 ^ e \<and> odd q) then (q + 1) * 2 ^ e else q * 2 ^ e)"

definition to_number :: "int \<Rightarrow> jsnum" where
  "to_number x =
     (let m = round_nat (nat \<bar>x\<bar>)
      in if 2 ^ 1024 \<le> m then (if x < 0 then MinusInfinity else PlusInfinity)
         else Num (if x < 0 then - int m else int m))"

text \<open>
  The integers that are the value of a double. A number that \<^verbatim>\<open>JSON.parse\<close> reads
  from a file is one of them.
\<close>

definition js_integer :: "int \<Rightarrow> bool" where
  "js_integer x = (to_number x = Num x)"

text \<open>
  \<^verbatim>\<open>String.prototype.split('.')\<close>: the pieces between the separators; never the
  empty array.
\<close>

fun split_on :: "'a \<Rightarrow> 'a list \<Rightarrow> 'a list list" where
  "split_on c [] = [[]]"
| "split_on c (x # xs) =
     (if x = c then [] # split_on c xs
      else (case split_on c xs of
              p # ps \<Rightarrow> (x # p) # ps
            | [] \<Rightarrow> [[x]]))"

text \<open>\<^verbatim>\<open>String.prototype.includes('.')\<close>.\<close>

definition includes_char :: "'a \<Rightarrow> 'a list \<Rightarrow> bool" where
  "includes_char c s = (c \<in> set s)"

text \<open>\<^verbatim>\<open>parts[i]\<close>: the element, or \<^verbatim>\<open>undefined\<close> (\<open>None\<close>) out of range.\<close>

fun nth_opt :: "'a list \<Rightarrow> nat \<Rightarrow> 'a option" where
  "nth_opt [] n = None"
| "nth_opt (x # xs) 0 = Some x"
| "nth_opt (x # xs) (Suc n) = nth_opt xs n"

text \<open>
  \<^verbatim>\<open>parseInt(s)\<close> with no radix (ECMAScript, 19.2.5): skip the leading white space,
  read a sign, read the prefix \<^verbatim>\<open>0x\<close>/\<^verbatim>\<open>0X\<close> (radix 16, otherwise 10), then the
  longest run of digits of the radix. No digit gives \<^verbatim>\<open>NaN\<close>; otherwise the result is
  the double nearest to the integer the digits denote (as Node computes it; the standard
  also allows an engine to read the decimal digits after the twentieth as zeros). The
  white space is that of the standard: TAB, LF, VT, FF, CR, the space, U+00A0, U+1680,
  U+2000 to U+200A, U+2028, U+2029, U+202F, U+205F, U+3000 and U+FEFF.
\<close>

definition is_ws :: "codeunit \<Rightarrow> bool" where
  "is_ws c = (c = 0x09 \<or> c = 0x0A \<or> c = 0x0B \<or> c = 0x0C \<or> c = 0x0D \<or> c = 0x20
              \<or> c = 0xA0 \<or> c = 0x1680 \<or> (0x2000 \<le> c \<and> c \<le> 0x200A) \<or> c = 0x2028
              \<or> c = 0x2029 \<or> c = 0x202F \<or> c = 0x205F \<or> c = 0x3000 \<or> c = 0xFEFF)"

definition digit_val :: "codeunit \<Rightarrow> nat option" where
  "digit_val c =
     (let n = unat c in
      if 48 \<le> n \<and> n \<le> 57 then Some (n - 48)
      else if 97 \<le> n \<and> n \<le> 122 then Some (n - 87)
      else if 65 \<le> n \<and> n \<le> 90 then Some (n - 55)
      else None)"

definition is_digit_of :: "nat \<Rightarrow> codeunit \<Rightarrow> bool" where
  "is_digit_of radix c = (case digit_val c of None \<Rightarrow> False | Some d \<Rightarrow> d < radix)"

definition digits_value :: "nat \<Rightarrow> jsstring \<Rightarrow> nat" where
  "digits_value radix ds =
     foldl (\<lambda>acc c. acc * radix + (case digit_val c of None \<Rightarrow> 0 | Some d \<Rightarrow> d)) 0 ds"

definition parseInt :: "jsstring \<Rightarrow> jsnum" where
  "parseInt s =
     (let s1 = dropWhile is_ws s;
          neg = (case s1 of c # _ \<Rightarrow> c = cu CHR ''-'' | [] \<Rightarrow> False);
          s2 = (case s1 of c # r \<Rightarrow> if c = cu CHR ''+'' \<or> c = cu CHR ''-'' then r else s1
                | [] \<Rightarrow> s1);
          hex = (case s2 of a # b # _ \<Rightarrow> a = cu CHR ''0'' \<and> (b = cu CHR ''x'' \<or> b = cu CHR ''X'')
                 | _ \<Rightarrow> False);
          radix = (if hex then 16 else 10);
          s3 = (if hex then drop 2 s2 else s2);
          ds = takeWhile (is_digit_of radix) s3
      in if ds = [] then NaN
         else to_number (if neg then - int (digits_value radix ds) else int (digits_value radix ds)))"

text \<open>\<^verbatim>\<open>parseInt(undefined)\<close> is \<^verbatim>\<open>NaN\<close>.\<close>

definition parseInt_opt :: "jsstring option \<Rightarrow> jsnum" where
  "parseInt_opt p = (case p of None \<Rightarrow> NaN | Some s \<Rightarrow> parseInt s)"

text \<open>
  \<^verbatim>\<open>Array.prototype.findIndex\<close>: the first index whose element satisfies the
  predicate; \<open>None\<close> stands for \<open>-1\<close>. \<^verbatim>\<open>Array.prototype.find\<close> is \<open>List.find\<close>.
\<close>

fun findIndex :: "('a \<Rightarrow> bool) \<Rightarrow> 'a list \<Rightarrow> nat option" where
  "findIndex P [] = None"
| "findIndex P (x # xs) =
     (if P x then Some 0 else (case findIndex P xs of None \<Rightarrow> None | Some i \<Rightarrow> Some (Suc i)))"

text \<open>
  \<^verbatim>\<open>Array.prototype.sort(cmp)\<close>. The sort is stable (ECMAScript 2019), and a comparator
  result \<^verbatim>\<open>NaN\<close> counts as \<open>0\<close>. For a consistent comparator the result is the one
  of a stable insertion sort, which is the model; the comparator returns \<open>None\<close> for
  \<^verbatim>\<open>NaN\<close>. Only the sign of its result is used, and the difference of two doubles has
  the sign of their exact difference.
\<close>

definition sortCompare :: "int option \<Rightarrow> int" where
  "sortCompare v = (case v of None \<Rightarrow> 0 | Some n \<Rightarrow> n)"

fun insert_by :: "('a \<Rightarrow> 'a \<Rightarrow> int option) \<Rightarrow> 'a \<Rightarrow> 'a list \<Rightarrow> 'a list" where
  "insert_by cmp x [] = [x]"
| "insert_by cmp x (y # ys) =
     (if sortCompare (cmp x y) \<le> 0 then x # y # ys else y # insert_by cmp x ys)"

definition js_sort :: "('a \<Rightarrow> 'a \<Rightarrow> int option) \<Rightarrow> 'a list \<Rightarrow> 'a list" where
  "js_sort cmp xs = foldr (insert_by cmp) xs []"

text \<open>
  \<^verbatim>\<open>String(n)\<close> of an integer-valued number (\<^verbatim>\<open>parseInt\<close> applies it to a
  numeric argument, and \<^verbatim>\<open>obj[n]\<close> looks up the property of that name). The digits
  printed are the fewest significant digits that read back as the same double, followed
  by zeros: \<open>shortest_with k m\<close> is the value with \<open>k\<close> significant digits that
  is printed for \<open>m\<close>, if one of the two nearest reads back as \<open>m\<close> (of two that do,
  the nearer one, and the one with the even last digit when both are equally near). Up
  to \<open>2^53\<close> these are the decimal digits of \<open>n\<close>. A value of more than 21 digits
  is printed as \<^verbatim>\<open>d.ddde+N\<close>.
\<close>

definition digit_unit :: "nat \<Rightarrow> codeunit" where
  "digit_unit d = of_nat (48 + d)"

fun digits_of :: "nat \<Rightarrow> jsstring" where
  "digits_of n = (if n < 10 then [digit_unit n] else digits_of (n div 10) @ [digit_unit (n mod 10)])"

declare digits_of.simps [simp del]

definition reads_back :: "nat \<Rightarrow> nat \<Rightarrow> bool" where
  "reads_back v m = (to_number (int v) = Num (int m))"

definition shortest_with :: "nat \<Rightarrow> nat \<Rightarrow> nat option" where
  "shortest_with k m =
     (let p = 10 ^ (length (digits_of m) - k); lo = (m div p) * p; hi = lo + p
      in if reads_back lo m \<and> reads_back hi m
         then Some (if m - lo < hi - m then lo else if hi - m < m - lo then hi
                    else if even (m div p) then lo else hi)
         else if reads_back lo m then Some lo
         else if reads_back hi m then Some hi
         else None)"

text \<open>
  The search for the fewest digits, from \<open>k\<close> up to all the digits of \<open>m\<close>; a double
  is found with 17 digits at most.
\<close>

fun shortest :: "nat \<Rightarrow> nat \<Rightarrow> nat \<Rightarrow> nat \<times> nat" where
  "shortest 0 k m = (m, k)"
| "shortest (Suc n) k m =
     (case shortest_with k m of Some v \<Rightarrow> (v, k) | None \<Rightarrow> shortest n (Suc k) m)"

definition exponent_form :: "nat \<Rightarrow> nat \<Rightarrow> jsstring" where
  "exponent_form v k =
     (let e = str ''e+'' @ digits_of (length (digits_of v) - 1)
      in case take k (digits_of v) of
           [] \<Rightarrow> e
         | d # ds \<Rightarrow> (if ds = [] then [d] else d # cu CHR ''.'' # ds) @ e)"

definition toString_nat :: "nat \<Rightarrow> jsstring" where
  "toString_nat m =
     (case shortest (length (digits_of m)) 1 m of
        (v, k) \<Rightarrow> if length (digits_of v) \<le> 21 then digits_of v else exponent_form v k)"

definition toString_int :: "int \<Rightarrow> jsstring" where
  "toString_int i = (if i < 0 then cu CHR ''-'' # toString_nat (nat (- i)) else toString_nat (nat i))"

subsection \<open>The data model\<close>

text \<open>
  The two documents as the scripts write them and as the installed README documents
  them: a task has a numeric \<^verbatim>\<open>id\<close>, a numeric \<^verbatim>\<open>priority\<close> (1 highest, 3 lowest),
  a \<^verbatim>\<open>status\<close> string and an array \<^verbatim>\<open>subtasks\<close>; a subtask has an id, a
  title and a status string. The ids and priorities are integers, and a field holds the
  value of the double that \<^verbatim>\<open>JSON.parse\<close> made of the number in the file
  (\<open>js_integer\<close>). A time stamp stands for the string
  \<^verbatim>\<open>new Date().toISOString()\<close> gives.
\<close>

type_synonym timestamp = nat

record subtask =
  st_id :: jsid
  st_title :: string
  st_status :: string

record task =
  task_id :: int
  title :: string
  description :: string
  status :: string
  priority :: int
  subtasks :: "subtask list"
  created_at :: timestamp
  updated_at :: timestamp

record tasksData =
  project :: string
  version :: string
  tasks :: "task list"

text \<open>
  The summary of a history entry is free text: either the text the user gave, or one of
  the scripts' templates with the values it interpolates.
\<close>

datatype summary_text =
    UserText string
  | SubtaskCompleted jsstring string
      \<comment> \<open>subtask id and title: "subtask <id> "<title>" completed"\<close>
  | AllSubtasksCompleted nat
      \<comment> \<open>"all subtasks completed (<n>)"\<close>
  | TaskCompleted string nat
      \<comment> \<open>task title and the number of subtasks: "task "<title>" completed [and all its
          subtasks (<n>)]"\<close>
  | TaskFinished jsstring
      \<comment> \<open>"task <id token> finished successfully"\<close>
  | TaskNumberFinished jsnum
      \<comment> \<open>"task #<id> finished"\<close>
  | TaskStarted string
      \<comment> \<open>"started task "<title>""\<close>
  | ProjectInitialized

record historyEntry =
  taskId :: int
  taskTitle :: string
  action :: string
  summary :: summary_text
  timestamp :: timestamp
  details :: "(string \<times> string) option"
    \<comment> \<open>\<^verbatim>\<open>{}\<close>, or \<^verbatim>\<open>{ oldStatus, newStatus }\<close>\<close>

record currentCtx =
  activeTask :: "int option"
  cc_summary :: summary_text

record contextDoc =
  lastUpdated :: timestamp
  projectState :: summary_text
  taskHistory :: "historyEntry list"
  currentContext :: currentCtx

subsection \<open>The world: two files and a clock\<close>

text \<open>
  A file is absent, present but unreadable (the read or \<^verbatim>\<open>JSON.parse\<close> throws), or
  holds a document. Whether a write succeeds is a property of the environment, fixed for
  one run of a command. \<^verbatim>\<open>new Date()\<close> reads the next value of an arbitrary
  sequence of readings. The derived text file \<^verbatim>\<open>copilot-context.md\<close> is written and
  never read; it is not part of the world.
\<close>

datatype 'a stored = Absent | Unreadable | Content 'a

record world =
  tasksFile :: "tasksData stored"
  contextFile :: "contextDoc stored"
  tasksWritable :: bool
  contextWritable :: bool
  clock :: "nat \<Rightarrow> timestamp"
  ticks :: nat

definition now :: "world \<Rightarrow> timestamp \<times> world" where
  "now w = (clock w (ticks w), w\<lparr>ticks := Suc (ticks w)\<rparr>)"

text \<open>
  \<^verbatim>\<open>const o = xs.find(P); o.field = v\<close> changes the first element of \<open>xs\<close> that
  satisfies \<open>P\<close>, in place.
\<close>

fun update_first :: "('a \<Rightarrow> bool) \<Rightarrow> ('a \<Rightarrow> 'a) \<Rightarrow> 'a list \<Rightarrow> 'a list" where
  "update_first P f [] = []"
| "update_first P f (x # xs) = (if P x then f x # xs else x # update_first P f xs)"

text \<open>\<^verbatim>\<open>summary || template\<close>: the empty string and \<^verbatim>\<open>undefined\<close> are falsy.\<close>

definition or_template :: "string option \<Rightarrow> summary_text \<Rightarrow> summary_text" where
  "or_template s d = (case s of None \<Rightarrow> d | Some u \<Rightarrow> if u = [] then d else UserText u)"

definition truthy_summary :: "summary_text \<Rightarrow> bool" where
  "truthy_summary s = (case s of UserText u \<Rightarrow> u \<noteq> [] | _ \<Rightarrow> True)"

subsection \<open>context-tracker.js\<close>

text \<open>
  \<open>loadContext\<close> creates the file through \<open>initContext\<close> when it is absent, and
  \<open>initContext\<close> reads it through \<open>loadContext\<close> when it is present;
  \<open>readContextFile\<close> is the read both end in (lines 56-61).
\<close>

definition readContextFile :: "world \<Rightarrow> contextDoc option" where
  "readContextFile w = (case contextFile w of Content c \<Rightarrow> Some c | _ \<Rightarrow> None)"

definition initialContext :: "timestamp \<Rightarrow> contextDoc" where
  "initialContext ts =
     \<lparr>lastUpdated = ts, projectState = ProjectInitialized, taskHistory = [],
      currentContext = \<lparr>activeTask = None, cc_summary = ProjectInitialized\<rparr>\<rparr>"

definition initContext :: "world \<Rightarrow> contextDoc option \<times> world" where
  "initContext w =
     (case contextFile w of
        Absent \<Rightarrow>
          (case now w of (ts, w1) \<Rightarrow>
             if contextWritable w1
             then (Some (initialContext ts), w1\<lparr>contextFile := Content (initialContext ts)\<rparr>)
             else (None, w1))
      | _ \<Rightarrow> (readContextFile w, w))"

definition loadContext :: "world \<Rightarrow> contextDoc option \<times> world" where
  "loadContext w =
     (case contextFile w of
        Absent \<Rightarrow> initContext w
      | _ \<Rightarrow> (readContextFile w, w))"

definition loadTasks_tracker :: "world \<Rightarrow> tasksData option" where
  "loadTasks_tracker w = (case tasksFile w of Content d \<Rightarrow> Some d | _ \<Rightarrow> None)"

definition saveContext :: "contextDoc \<Rightarrow> world \<Rightarrow> bool \<times> world" where
  "saveContext c w =
     (if contextWritable w then (True, w\<lparr>contextFile := Content c\<rparr>) else (False, w))"

text \<open>
  \<open>addHistoryEntry(taskId, action, summary, details)\<close>. The entry stores \<open>taskId\<close>,
  the number that \<^verbatim>\<open>task.id === taskId\<close> found equal to the task's id.
\<close>

definition addHistoryEntry ::
  "jsnum \<Rightarrow> string \<Rightarrow> summary_text \<Rightarrow> (string \<times> string) option \<Rightarrow> world \<Rightarrow> bool \<times> world" where
  "addHistoryEntry tid act summ det w =
     (case loadContext w of
        (None, w1) \<Rightarrow> (False, w1)
      | (Some ctx, w1) \<Rightarrow>
          (case loadTasks_tracker w1 of
             None \<Rightarrow> (False, w1)
           | Some d \<Rightarrow>
               (case find (\<lambda>t. Num (task_id t) = tid) (tasks d) of
                  None \<Rightarrow> (False, w1)
                | Some t \<Rightarrow>
                    (case now w1 of (ts, w2) \<Rightarrow>
                     case now w2 of (lu, w3) \<Rightarrow>
                       saveContext
                         (ctx\<lparr>taskHistory := taskHistory ctx @
                                 [\<lparr>taskId = task_id t, taskTitle = title t, action = act,
                                   summary = summ, timestamp = ts, details = det\<rparr>],
                               lastUpdated := lu,
                               currentContext :=
                                 \<lparr>activeTask =
                                    (if act = ''start'' then Some (task_id t)
                                     else if act = ''complete'' then None
                                     else activeTask (currentContext ctx)),
                                  cc_summary = summ\<rparr>\<rparr>)
                         w3))))"

definition getTaskHistory :: "int \<Rightarrow> world \<Rightarrow> historyEntry list option \<times> world" where
  "getTaskHistory tid w =
     (case loadContext w of
        (None, w1) \<Rightarrow> (None, w1)
      | (Some ctx, w1) \<Rightarrow> (Some (filter (\<lambda>e. taskId e = tid) (taskHistory ctx)), w1))"

text \<open>
  \<open>updateTaskStatus(taskId, status, summary)\<close> reads the task list from the file, so
  \<open>oldStatus\<close> is the status the file holds when it is called.
\<close>

definition historyAction :: "string \<Rightarrow> string \<Rightarrow> string" where
  "historyAction newStatus oldStatus =
     (if newStatus = ''in-progress'' \<and> oldStatus \<noteq> ''in-progress'' then ''start''
      else if newStatus = ''done'' \<and> oldStatus \<noteq> ''done'' then ''complete''
      else ''update'')"

definition updateTaskStatus :: "jsnum \<Rightarrow> string \<Rightarrow> summary_text \<Rightarrow> world \<Rightarrow> bool \<times> world" where
  "updateTaskStatus tid newStatus summ w =
     (case loadTasks_tracker w of
        None \<Rightarrow> (False, w)
      | Some d \<Rightarrow>
          (case find (\<lambda>t. Num (task_id t) = tid) (tasks d) of
             None \<Rightarrow> (False, w)
           | Some t \<Rightarrow>
               (case now w of (ts, w1) \<Rightarrow>
                  if tasksWritable w1
                  then addHistoryEntry tid (historyAction newStatus (status t)) summ
                         (Some (status t, newStatus))
                         (w1\<lparr>tasksFile := Content
                               (d\<lparr>tasks := update_first (\<lambda>t. Num (task_id t) = tid)
                                     (\<lambda>t. t\<lparr>status := newStatus, updated_at := ts\<rparr>) (tasks d)\<rparr>)\<rparr>)
                  else (False, w1))))"

text \<open>
  \<open>getNextTask()\<close>: the pending tasks, sorted by \<^verbatim>\<open>a.priority - b.priority\<close>; the
  first of them, or \<^verbatim>\<open>null\<close>.
\<close>

definition byPriority :: "task \<Rightarrow> task \<Rightarrow> int option" where
  "byPriority a b = Some (priority a - priority b)"

definition nextPending :: "task list \<Rightarrow> task option" where
  "nextPending ts =
     (if length ts = 0 then None
      else (let pendingTasks = filter (\<lambda>t. status t = ''pending'') ts in
            if length pendingTasks = 0 then None
            else nth_opt (js_sort byPriority pendingTasks) 0))"

definition getNextTask_tracker :: "world \<Rightarrow> task option" where
  "getNextTask_tracker w =
     (case loadTasks_tracker w of None \<Rightarrow> None | Some d \<Rightarrow> nextPending (tasks d))"

text \<open>
  \<open>prepareTaskContextForCopilot(taskId)\<close> renders the task and its history as text;
  the value here is what the text is built from. Its callers pass the number
  \<^verbatim>\<open>task.id\<close>, and \<^verbatim>\<open>parseInt(taskId)\<close> reads the number through its string.
  Reading the history may create the context file.
\<close>

datatype copilotContext = CopilotContext task "historyEntry list option"

definition prepareTaskContextForCopilot :: "int \<Rightarrow> world \<Rightarrow> copilotContext option \<times> world" where
  "prepareTaskContextForCopilot tid w =
     (case loadTasks_tracker w of
        None \<Rightarrow> (None, w)
      | Some d \<Rightarrow>
          (case find (\<lambda>t. Num (task_id t) = parseInt (toString_int tid)) (tasks d) of
             None \<Rightarrow> (None, w)
           | Some t \<Rightarrow>
               (case getTaskHistory tid w of (h, w1) \<Rightarrow> (Some (CopilotContext t h), w1))))"

record contextUpdate =
  cu_success :: bool
  cu_nextTask :: "task option"
  cu_copilotContext :: "copilotContext option"

definition updateContextAfterTaskCompletion ::
  "jsnum \<Rightarrow> summary_text \<Rightarrow> world \<Rightarrow> contextUpdate \<times> world" where
  "updateContextAfterTaskCompletion tid summ w =
     (case loadContext w of
        (None, w1) \<Rightarrow>
          (\<lparr>cu_success = False, cu_nextTask = None, cu_copilotContext = None\<rparr>, w1)
      | (Some ctx, w1) \<Rightarrow>
          (case now w1 of (lu, w2) \<Rightarrow>
           case saveContext
                  (ctx\<lparr>lastUpdated := lu,
                        currentContext :=
                          \<lparr>activeTask = None,
                           cc_summary = (if truthy_summary summ then summ
                                         else TaskNumberFinished tid)\<rparr>\<rparr>) w2 of
             (saveSuccess, w3) \<Rightarrow>
               (case getNextTask_tracker w3 of
                  None \<Rightarrow>
                    (\<lparr>cu_success = saveSuccess, cu_nextTask = None, cu_copilotContext = None\<rparr>, w3)
                | Some nt \<Rightarrow>
                    (case prepareTaskContextForCopilot (task_id nt) w3 of
                       (cc, w4) \<Rightarrow>
                         (\<lparr>cu_success = saveSuccess, cu_nextTask = Some nt,
                           cu_copilotContext = cc\<rparr>, w4)))))"

subsection \<open>complete.js\<close>

text \<open>
  \<open>loadTasks\<close> of complete.js, chat.js and the next-task script ends the process
  (\<^verbatim>\<open>process.exit(1)\<close>) when the file is absent or unreadable; \<open>saveTasks\<close> reports
  whether the write succeeded.
\<close>

datatype 'a outcome = ProcessExit | Returned 'a

definition loadTasks :: "world \<Rightarrow> tasksData outcome" where
  "loadTasks w = (case tasksFile w of Content d \<Rightarrow> Returned d | _ \<Rightarrow> ProcessExit)"

definition saveTasks :: "tasksData \<Rightarrow> world \<Rightarrow> bool \<times> world" where
  "saveTasks d w =
     (if tasksWritable w then (True, w\<lparr>tasksFile := Content d\<rparr>) else (False, w))"

datatype message =
    TaskNotFound jsnum
      \<comment> \<open>"task with ID <n> not found"; the number prints as NaN when it is\<close>
  | SubtaskNotFound jsstring
      \<comment> \<open>"subtask with ID <id> not found"\<close>
  | SubtaskMarkedDone jsstring
      \<comment> \<open>"subtask #<id> marked as done"\<close>
  | SubtaskAndTaskMarkedDone jsstring jsnum
      \<comment> \<open>the same, and "all subtasks done, task #<n> marked as done"\<close>
  | TaskMarkedDone jsnum string
      \<comment> \<open>"task #<n> "<title>" marked as done"\<close>
  | SaveFailed
      \<comment> \<open>"could not save the changes"\<close>

record completeResult =
  success :: bool
  message :: message
  nextTask :: "task option"
  copilotContext :: "copilotContext option"

definition strict_eq_str :: "jsid \<Rightarrow> jsstring \<Rightarrow> bool" where
  "strict_eq_str a s = (case a of IdStr t \<Rightarrow> t = s | IdNum _ \<Rightarrow> False)"

definition strict_eq_num :: "jsid \<Rightarrow> jsnum \<Rightarrow> bool" where
  "strict_eq_num a n = (case a of IdNum m \<Rightarrow> Num m = n | IdStr _ \<Rightarrow> False)"

definition allDone :: "subtask list \<Rightarrow> bool" where
  "allDone sts = list_all (\<lambda>st. st_status st = ''done'') sts"

text \<open>
  The end of \<open>completeTaskWithContextUpdate\<close> (lines 157-175), shared by its two
  branches.
\<close>

definition completionEnd ::
  "jsstring \<Rightarrow> string option \<Rightarrow> jsnum \<Rightarrow> bool \<Rightarrow> message \<Rightarrow> world \<Rightarrow> completeResult \<times> world" where
  "completionEnd tok summ mainTaskId ok msg w =
     (if ok
      then (case updateContextAfterTaskCompletion mainTaskId (or_template summ (TaskFinished tok)) w of
              (r, w1) \<Rightarrow>
                (\<lparr>success = ok, message = msg, nextTask = cu_nextTask r,
                  copilotContext = cu_copilotContext r\<rparr>, w1))
      else (\<lparr>success = ok, message = msg, nextTask = None, copilotContext = None\<rparr>, w))"

text \<open>The branch for a subtask id, one that contains a dot (lines 60-119).\<close>

definition completeSubtask ::
  "jsstring \<Rightarrow> string option \<Rightarrow> jsnum \<Rightarrow> tasksData \<Rightarrow> world \<Rightarrow> completeResult \<times> world" where
  "completeSubtask tok summ mainTaskId d w =
     (let parentIdNum = parseInt_opt (nth_opt (split_on (cu CHR ''.'') tok) 0) in
      case find (\<lambda>t. Num (task_id t) = parentIdNum) (tasks d) of
        None \<Rightarrow>
          (\<lparr>success = False, message = TaskNotFound parentIdNum, nextTask = None,
            copilotContext = None\<rparr>, w)
      | Some parentTask \<Rightarrow>
          (case find (\<lambda>st. strict_eq_str (st_id st) tok) (subtasks parentTask) of
             None \<Rightarrow>
               (\<lparr>success = False, message = SubtaskNotFound tok, nextTask = None,
                 copilotContext = None\<rparr>, w)
           | Some subtask \<Rightarrow>
               (let sts = update_first (\<lambda>st. strict_eq_str (st_id st) tok)
                            (\<lambda>st. st\<lparr>st_status := ''done''\<rparr>) (subtasks parentTask);
                    allSubtasksDone = allDone sts
                in case now w of (ts, w1) \<Rightarrow>
                   case saveTasks
                          (d\<lparr>tasks := update_first (\<lambda>t. Num (task_id t) = parentIdNum)
                                (\<lambda>t. t\<lparr>subtasks := sts,
                                       status := (if allSubtasksDone then ''done'' else status t),
                                       updated_at := ts\<rparr>) (tasks d)\<rparr>) w1 of
                     (False, w2) \<Rightarrow> completionEnd tok summ mainTaskId False SaveFailed w2
                   | (True, w2) \<Rightarrow>
                       (case addHistoryEntry parentIdNum ''update''
                               (or_template summ (SubtaskCompleted tok (st_title subtask))) None w2 of
                          (_, w3) \<Rightarrow>
                            if allSubtasksDone
                            then (case updateTaskStatus parentIdNum ''done''
                                         (AllSubtasksCompleted (length sts)) w3 of
                                    (_, w4) \<Rightarrow>
                                      completionEnd tok summ mainTaskId True
                                        (SubtaskAndTaskMarkedDone tok parentIdNum) w4)
                            else completionEnd tok summ mainTaskId True (SubtaskMarkedDone tok) w3))))"

text \<open>The branch for a task id (lines 120-155).\<close>

definition completeMainTask ::
  "jsstring \<Rightarrow> string option \<Rightarrow> jsnum \<Rightarrow> tasksData \<Rightarrow> world \<Rightarrow> completeResult \<times> world" where
  "completeMainTask tok summ mainTaskId d w =
     (let taskIdNum = parseInt tok in
      case find (\<lambda>t. Num (task_id t) = taskIdNum) (tasks d) of
        None \<Rightarrow>
          (\<lparr>success = False, message = TaskNotFound taskIdNum, nextTask = None,
            copilotContext = None\<rparr>, w)
      | Some t0 \<Rightarrow>
          (case now w of (ts, w1) \<Rightarrow>
           case saveTasks
                  (d\<lparr>tasks := update_first (\<lambda>t. Num (task_id t) = taskIdNum)
                        (\<lambda>t. t\<lparr>status := ''done'', updated_at := ts,
                               subtasks := (if length (subtasks t) > 0
                                            then map (\<lambda>st. st\<lparr>st_status := ''done''\<rparr>) (subtasks t)
                                            else subtasks t)\<rparr>) (tasks d)\<rparr>) w1 of
             (False, w2) \<Rightarrow> completionEnd tok summ mainTaskId False SaveFailed w2
           | (True, w2) \<Rightarrow>
               (case updateTaskStatus taskIdNum ''done''
                       (or_template summ (TaskCompleted (title t0) (length (subtasks t0)))) w2 of
                  (_, w3) \<Rightarrow>
                    completionEnd tok summ mainTaskId True (TaskMarkedDone taskIdNum (title t0)) w3)))"

definition completeTaskWithContextUpdate ::
  "jsstring \<Rightarrow> string option \<Rightarrow> world \<Rightarrow> completeResult outcome \<times> world" where
  "completeTaskWithContextUpdate tok summ w =
     (case loadTasks w of
        ProcessExit \<Rightarrow> (ProcessExit, w)
      | Returned d \<Rightarrow>
          (let isMainTask = \<not> includes_char (cu CHR ''.'') tok;
               mainTaskId = (if isMainTask then parseInt tok
                             else parseInt_opt (nth_opt (split_on (cu CHR ''.'') tok) 0))
           in case (if \<not> isMainTask then completeSubtask tok summ mainTaskId d w
                    else completeMainTask tok summ mainTaskId d w) of
                (r, w1) \<Rightarrow> (Returned r, w1)))"

text \<open>
  \<open>startTaskExecution(taskId)\<close> prints its result. With an id it takes the task from
  the list it loaded, otherwise the tracker's next task, an object of a second load of
  the file.
\<close>

datatype startExecution =
    ExecNotFound "jsstring option"
      \<comment> \<open>"task [with ID <id>] not found"\<close>
  | ExecStarted task
  | ExecSaveFailed
  | ExecNotInList int

definition truthy_string :: "jsstring option \<Rightarrow> bool" where
  "truthy_string s = (case s of None \<Rightarrow> False | Some u \<Rightarrow> u \<noteq> [])"

definition startTaskExecution :: "jsstring option \<Rightarrow> world \<Rightarrow> startExecution outcome \<times> world" where
  "startTaskExecution tok w =
     (case loadTasks w of
        ProcessExit \<Rightarrow> (ProcessExit, w)
      | Returned d \<Rightarrow>
          (case (if truthy_string tok
                 then find (\<lambda>t. Num (task_id t) = parseInt_opt tok) (tasks d)
                 else getNextTask_tracker w) of
             None \<Rightarrow> (Returned (ExecNotFound (if truthy_string tok then tok else None)), w)
           | Some t0 \<Rightarrow>
               (case now w of (ts, w1) \<Rightarrow>
                let t1 = t0\<lparr>status := ''in-progress'', updated_at := ts\<rparr>;
                    ts1 = (if truthy_string tok
                           then update_first (\<lambda>t. Num (task_id t) = parseInt_opt tok) (\<lambda>_. t1) (tasks d)
                           else tasks d)
                in case findIndex (\<lambda>t. task_id t = task_id t1) ts1 of
                     None \<Rightarrow> (Returned (ExecNotInList (task_id t1)), w1)
                   | Some j \<Rightarrow>
                       (case saveTasks (d\<lparr>tasks := ts1[j := t1]\<rparr>) w1 of
                          (False, w2) \<Rightarrow> (Returned ExecSaveFailed, w2)
                        | (True, w2) \<Rightarrow>
                            (case updateTaskStatus (Num (task_id t1)) ''in-progress''
                                    (TaskStarted (title t1)) w2 of
                               (_, w3) \<Rightarrow>
                                 (case prepareTaskContextForCopilot (task_id t1) w3 of
                                    (_, w4) \<Rightarrow> (Returned (ExecStarted t1), w4)))))))"

subsection \<open>The next-task script (in copilot.js)\<close>

text \<open>
  \<open>getNextTask\<close> sorts the pending tasks by \<^verbatim>\<open>priorityOrder[a.priority] -
  priorityOrder[b.priority]\<close>, where \<open>priorityOrder\<close> has the keys \<^verbatim>\<open>high\<close>,
  \<^verbatim>\<open>medium\<close> and \<^verbatim>\<open>low\<close>. A key that is missing gives \<^verbatim>\<open>undefined\<close>, and the
  difference is then \<^verbatim>\<open>NaN\<close>.
\<close>

definition priorityOrder :: "jsstring \<Rightarrow> int option" where
  "priorityOrder k =
     (if k = str ''high'' then Some 1 else if k = str ''medium'' then Some 2
      else if k = str ''low'' then Some 3 else None)"

definition byPriorityOrder :: "task \<Rightarrow> task \<Rightarrow> int option" where
  "byPriorityOrder a b =
     (case priorityOrder (toString_int (priority a)) of
        None \<Rightarrow> None
      | Some x \<Rightarrow>
          (case priorityOrder (toString_int (priority b)) of
             None \<Rightarrow> None
           | Some y \<Rightarrow> Some (x - y)))"

definition nextPending_script :: "task list \<Rightarrow> task option" where
  "nextPending_script ts =
     (let pendingTasks = js_sort byPriorityOrder (filter (\<lambda>t. status t = ''pending'') ts)
      in if length pendingTasks > 0 then nth_opt pendingTasks 0 else None)"

definition getNextTask_script :: "world \<Rightarrow> task option outcome" where
  "getNextTask_script w =
     (case loadTasks w of
        ProcessExit \<Rightarrow> ProcessExit
      | Returned d \<Rightarrow> Returned (nextPending_script (tasks d)))"

definition getCurrentTask :: "world \<Rightarrow> task option outcome" where
  "getCurrentTask w =
     (case loadTasks w of
        ProcessExit \<Rightarrow> ProcessExit
      | Returned d \<Rightarrow>
          (let activeTasks = filter (\<lambda>t. status t = ''in-progress'') (tasks d)
           in Returned (if length activeTasks > 0 then nth_opt activeTasks 0 else None)))"

datatype startResult =
    NoPendingTask
      \<comment> \<open>"no task is pending"\<close>
  | NotFoundOrNotPending "jsstring option"
      \<comment> \<open>"task with ID <id> not found or not pending"\<close>
  | AlreadyActive task
      \<comment> \<open>"a task is already in progress: #<id> ..."\<close>
  | Started task "copilotContext option"
  | StartSaveFailed
  | StartNotInList int

text \<open>
  \<open>startNextTask(auto, targetTaskId)\<close>. With \<open>auto\<close> the task is an object of
  \<open>getNextTask\<close>'s own load of the file; with an id it is the first pending task of
  that id in the list loaded here, changed in place and then stored again at the first
  index that has its id.
\<close>

definition startNextTask :: "bool \<Rightarrow> jsstring option \<Rightarrow> world \<Rightarrow> startResult outcome \<times> world" where
  "startNextTask auto tok w =
     (case loadTasks w of
        ProcessExit \<Rightarrow> (ProcessExit, w)
      | Returned d \<Rightarrow>
          (case (if auto then getNextTask_script w
                 else if truthy_string tok
                 then Returned (find (\<lambda>t. Num (task_id t) = parseInt_opt tok \<and> status t = ''pending'')
                                  (tasks d))
                 else Returned None) of
             ProcessExit \<Rightarrow> (ProcessExit, w)
           | Returned None \<Rightarrow>
               (Returned (if auto then NoPendingTask else NotFoundOrNotPending tok), w)
           | Returned (Some t0) \<Rightarrow>
               (case getCurrentTask w of
                  ProcessExit \<Rightarrow> (ProcessExit, w)
                | Returned (Some cur) \<Rightarrow> (Returned (AlreadyActive cur), w)
                | Returned None \<Rightarrow>
                    (case now w of (ts, w1) \<Rightarrow>
                     let t1 = t0\<lparr>status := ''in-progress'', updated_at := ts\<rparr>;
                         ts1 = (if auto then tasks d
                                else update_first
                                       (\<lambda>t. Num (task_id t) = parseInt_opt tok \<and> status t = ''pending'')
                                       (\<lambda>_. t1) (tasks d))
                     in case findIndex (\<lambda>t. task_id t = task_id t1) ts1 of
                          None \<Rightarrow> (Returned (StartNotInList (task_id t1)), w1)
                        | Some j \<Rightarrow>
                            (case saveTasks (d\<lparr>tasks := ts1[j := t1]\<rparr>) w1 of
                               (False, w2) \<Rightarrow> (Returned StartSaveFailed, w2)
                             | (True, w2) \<Rightarrow>
                                 (case updateTaskStatus (Num (task_id t1)) ''in-progress''
                                         (TaskStarted (title t1)) w2 of
                                    (_, w3) \<Rightarrow>
                                      (case prepareTaskContextForCopilot (task_id t1) w3 of
                                         (cc, w4) \<Rightarrow> (Returned (Started t1 cc), w4))))))))"

subsection \<open>chat.js: completion query\<close>

text \<open>
  \<open>checkTaskCompletion(taskId)\<close>. The guard for a task without a \<^verbatim>\<open>subtasks\<close> array
  has no counterpart: every task of the data model has the field. The function changes
  nothing.
\<close>

datatype completionStatus =
    CheckTaskNotFound jsnum
  | CheckTask jsnum string string bool
      \<comment> \<open>task id, title, status, isDone\<close>
  | CheckSubtaskNotFound jsstring
  | CheckSubtask jsstring string string bool
      \<comment> \<open>the id as given, title, status, isDone\<close>

definition checkTaskCompletion :: "jsstring \<Rightarrow> world \<Rightarrow> completionStatus outcome" where
  "checkTaskCompletion tok w =
     (case loadTasks w of
        ProcessExit \<Rightarrow> ProcessExit
      | Returned d \<Rightarrow>
          (let parts = split_on (cu CHR ''.'') tok;
               mainTaskId = parseInt_opt (nth_opt parts 0)
           in case find (\<lambda>t. Num (task_id t) = mainTaskId) (tasks d) of
                None \<Rightarrow> Returned (CheckTaskNotFound mainTaskId)
              | Some t \<Rightarrow>
                  if length parts = 1
                  then Returned (CheckTask mainTaskId (title t) (status t) (status t = ''done''))
                  else (let subtaskId = parseInt_opt (nth_opt parts 1) in
                        case find (\<lambda>st. strict_eq_num (st_id st) subtaskId) (subtasks t) of
                          None \<Rightarrow> Returned (CheckSubtaskNotFound tok)
                        | Some st \<Rightarrow>
                            Returned (CheckSubtask tok (st_title st) (st_status st)
                                        (st_status st = ''done'')))))"

subsection \<open>chat.js: id allocation\<close>

text \<open>
  \<^verbatim>\<open>getNextTaskId(tasks)\<close>: \<open>1\<close> for the empty list, else
  \<^verbatim>\<open>Math.max(...tasks.map(task => task.id)) + 1\<close>. The spread passes every id as an
  argument of one call. An engine accepts only so many arguments and throws a
  \<^verbatim>\<open>RangeError\<close> beyond that; the limit depends on the engine and its stack and is
  the parameter \<open>maxArguments\<close>. The maximum of doubles is exact; the sum is the double
  nearest to the exact sum. \<^verbatim>\<open>Math.max()\<close> of no argument is \<^verbatim>\<open>-Infinity\<close>.
\<close>

datatype js_error = RangeError

fun Math_max :: "int \<Rightarrow> int list \<Rightarrow> int" where
  "Math_max m [] = m"
| "Math_max m (x # xs) = Math_max (max m x) xs"

definition getNextTaskId :: "nat \<Rightarrow> task list \<Rightarrow> js_error + jsnum" where
  "getNextTaskId maxArguments ts =
     (if length ts = 0 then Inr (Num 1)
      else if maxArguments < length ts then Inl RangeError
      else (case map task_id ts of
              [] \<Rightarrow> Inr MinusInfinity
            | i # is \<Rightarrow> Inr (to_number (Math_max i is + 1))))"

subsection \<open>Observations of a world\<close>

text \<open>
  The history log a world holds (empty when there is no readable context file), and the
  task that \<^verbatim>\<open>tasks.find(t => t.id === id)\<close> finds in the task file.
\<close>

definition history :: "world \<Rightarrow> historyEntry list" where
  "history w = (case contextFile w of Content c \<Rightarrow> taskHistory c | _ \<Rightarrow> [])"

definition storedTask :: "jsnum \<Rightarrow> world \<Rightarrow> task option" where
  "storedTask tid w =
     (case tasksFile w of
        Content d \<Rightarrow> find (\<lambda>t. Num (task_id t) = tid) (tasks d)
      | _ \<Rightarrow> None)"

definition storedTasks :: "world \<Rightarrow> task list" where
  "storedTasks w = (case tasksFile w of Content d \<Rightarrow> tasks d | _ \<Rightarrow> [])"

definition storedActiveTask :: "world \<Rightarrow> int option" where
  "storedActiveTask w =
     (case contextFile w of Content c \<Rightarrow> activeTask (currentContext c) | _ \<Rightarrow> None)"

text \<open>The message of a returned result.\<close>

definition message_of :: "completeResult outcome \<Rightarrow> message option" where
  "message_of r = (case r of ProcessExit \<Rightarrow> None | Returned x \<Rightarrow> Some (message x))"

subsection \<open>Example data\<close>

definition exSubtask :: "string \<Rightarrow> string \<Rightarrow> subtask" where
  "exSubtask i s = \<lparr>st_id = IdStr (str i), st_title = ''S'', st_status = s\<rparr>"

definition exTask :: "int \<Rightarrow> string \<Rightarrow> int \<Rightarrow> subtask list \<Rightarrow> task" where
  "exTask i s p sts =
     \<lparr>task_id = i, title = ''T'', description = ''D'', status = s, priority = p,
      subtasks = sts, created_at = 0, updated_at = 0\<rparr>"

definition exWorld :: "task list \<Rightarrow> world" where
  "exWorld ts =
     \<lparr>tasksFile = Content \<lparr>project = ''P'', version = ''1.0.0'', tasks = ts\<rparr>,
      contextFile = Absent, tasksWritable = True, contextWritable = True,
      clock = (\<lambda>k. 100 + k), ticks = 0\<rparr>"

subsection \<open>Library facts\<close>

lemma halvings_small: "n < 2 ^ 53 \<Longrightarrow> halvings n = 0"
  by (subst halvings.simps) simp

lemma round_nat_small: "n < 2 ^ 53 \<Longrightarrow> round_nat n = n"
  by (simp add: round_nat_def halvings_small)

lemma to_number_small: "\<bar>x\<bar> < 2 ^ 53 \<Longrightarrow> to_number x = Num x"
proof -
  assume "\<bar>x\<bar> < 2 ^ 53"
  then have s: "nat \<bar>x\<bar> < 2 ^ 53"
    by (simp add: nat_less_iff)
  then have r: "round_nat (nat \<bar>x\<bar>) = nat \<bar>x\<bar>"
    by (rule round_nat_small)
  have "(2::nat) ^ 53 \<le> 2 ^ 1024"
    by (rule power_increasing) simp_all
  with s have "\<not> 2 ^ 1024 \<le> nat \<bar>x\<bar>"
    by linarith
  with r show ?thesis
    by (simp add: to_number_def Let_def)
qed

lemma to_number_safe: "\<bar>x\<bar> \<le> 2 ^ 53 \<Longrightarrow> to_number x = Num x"
proof -
  assume a: "\<bar>x\<bar> \<le> 2 ^ 53"
  consider "\<bar>x\<bar> < 2 ^ 53" | "x = 9007199254740992" | "x = - 9007199254740992"
    using a by fastforce
  then show ?thesis
  proof cases
    case 1
    then show ?thesis by (rule to_number_small)
  next
    case 2
    then show ?thesis
      by (simp add: to_number_def round_nat_def halvings.simps Let_def)
  next
    case 3
    then show ?thesis
      by (simp add: to_number_def round_nat_def halvings.simps Let_def)
  qed
qed

lemma to_number_above_2_53: "to_number 9007199254740993 = Num 9007199254740992"
  by (simp add: to_number_def round_nat_def halvings.simps Let_def)

lemma unat_cu: "unat (cu c) = of_char c"
proof -
  have "cu c = word_of_nat (of_char c)"
    by (simp add: cu_def of_nat_of_char)
  moreover have "(of_char c :: nat) < 2 ^ 16"
    by (rule less_trans [OF nat_of_char_less_256]) simp
  ultimately show ?thesis
    by (simp add: unat_of_nat)
qed

lemma cu_eq_iff [simp]: "cu a = cu b \<longleftrightarrow> a = b"
proof
  assume "cu a = cu b"
  then have "unat (cu a) = unat (cu b)" by simp
  then show "a = b" by (simp add: unat_cu)
qed simp

lemma str_simps: "str [] = []" "str (c # s) = cu c # str s"
  by (simp_all add: str_def)

lemma str_eq_iff [simp]: "str a = str b \<longleftrightarrow> a = b"
proof -
  have "inj cu"
    by (rule injI) simp
  then show ?thesis
    by (simp add: str_def inj_map_eq_map)
qed

lemma Math_max_eq: "Math_max m xs = Max (insert m (set xs))"
proof (induction xs arbitrary: m)
  case Nil
  then show ?case by simp
next
  case (Cons x xs)
  have "Max (insert (max m x) (set xs)) = Max (insert m (insert x (set xs)))"
    by (cases "set xs = {}") (simp_all add: max.assoc)
  with Cons show ?case by simp
qed

lemma str_Nil_iff [simp]: "str s = [] \<longleftrightarrow> s = []"
  by (simp add: str_def)

lemma includes_char_str: "includes_char (cu c) (str s) \<longleftrightarrow> c \<in> set s"
  by (auto simp: includes_char_def str_def)

lemma split_on_str: "split_on (cu c) (str s) = map str (split_on c s)"
  by (induction s) (auto simp: str_simps split: list.splits)

lemma split_on_first: "nth_opt (split_on c s) 0 = Some (takeWhile (\<lambda>x. x \<noteq> c) s)"
  by (induction s) (auto split: list.splits)

lemma split_on_length: "length (split_on c s) = Suc (length (filter (\<lambda>x. x = c) s))"
  by (induction s) (auto split: list.splits)

lemma split_on_dotted: "includes_char c s \<Longrightarrow> length (split_on c s) \<noteq> Suc 0"
proof -
  assume "includes_char c s"
  then have "c \<in> set s"
    by (simp add: includes_char_def)
  then have "filter (\<lambda>x. x = c) s \<noteq> []"
    by (simp add: filter_empty_conv)
  then show ?thesis
    by (simp add: split_on_length)
qed

lemma split_on_plain: "\<not> includes_char c s \<Longrightarrow> takeWhile (\<lambda>x. x \<noteq> c) s = s"
  by (auto simp: includes_char_def)

lemma find_False: "find (\<lambda>x. False) xs = None"
  by (induction xs) auto

lemma nth_opt_filter: "nth_opt (filter P xs) 0 = find P xs"
  by (induction xs) auto

lemma find_filter_empty: "filter P xs = [] \<Longrightarrow> find P xs = None"
  by (induction xs) (auto split: if_splits)

lemma findIndex_None_iff: "findIndex P xs = None \<longleftrightarrow> (\<forall>x \<in> set xs. \<not> P x)"
  by (induction xs) (auto split: option.splits)

lemma update_first_mem: "find P xs = Some x \<Longrightarrow> f x \<in> set (update_first P f xs)"
  by (induction xs) (auto split: if_splits)

lemma find_strict_eq_num_strings:
  "\<forall>st \<in> set sts. \<exists>s. st_id st = IdStr s \<Longrightarrow>
   find (\<lambda>st. strict_eq_num (st_id st) n) sts = None"
  by (auto simp: find_None_iff strict_eq_num_def)

lemma find_SomeD: "find P xs = Some x \<Longrightarrow> P x \<and> x \<in> set xs"
  by (induction xs) (auto split: if_splits)

lemma find_update_first:
  "P (f x) \<Longrightarrow> find P xs = Some x \<Longrightarrow> find P (update_first P f xs) = Some (f x)"
  by (induction xs) (auto split: if_splits)

lemma update_first_twice:
  "find P xs = Some x \<Longrightarrow> P (f x) \<Longrightarrow>
   update_first P g (update_first P f xs) = update_first P (\<lambda>y. g (f y)) xs"
  by (induction xs) (auto split: if_splits)

lemma update_first_map_same:
  "find P xs = Some x \<Longrightarrow> h (f x) = h x \<Longrightarrow> map h (update_first P f xs) = map h xs"
  by (induction xs) (auto split: if_splits)

lemma update_first_twice_obs:
  assumes "find P xs = Some x" and "P (f x)" and "P (g (f x))"
  shows "find P (update_first P g (update_first P f xs)) = Some (g (f x))"
    and "h (g (f x)) = h x \<Longrightarrow> map h (update_first P g (update_first P f xs)) = map h xs"
proof -
  have m: "update_first P g (update_first P f xs) = update_first P (\<lambda>y. g (f y)) xs"
    using assms(1,2) update_first_twice [where P = P and xs = xs and x = x and f = f and g = g]
    by blast
  show "find P (update_first P g (update_first P f xs)) = Some (g (f x))"
    unfolding m
    using assms(1,3) find_update_first [where P = P and xs = xs and x = x and f = "\<lambda>y. g (f y)"]
    by blast
  show "map h (update_first P g (update_first P f xs)) = map h xs" if "h (g (f x)) = h x"
    unfolding m
    using assms(1) that
      update_first_map_same [where P = P and xs = xs and x = x and f = "\<lambda>y. g (f y)" and h = h]
    by blast
qed

lemma last_pending_makes_allDone:
  "find Q xs = Some st \<Longrightarrow> filter (\<lambda>x. st_status x \<noteq> ''done'') xs = [st] \<Longrightarrow>
   allDone (update_first Q (\<lambda>x. x\<lparr>st_status := ''done''\<rparr>) xs)"
proof (induction xs)
  case Nil
  then show ?case by simp
next
  case (Cons x xs)
  show ?case
  proof (cases "Q x")
    case True
    with Cons.prems(1) have xs: "x = st" by simp
    have "st \<in> set (filter (\<lambda>x. st_status x \<noteq> ''done'') (x # xs))"
      using Cons.prems(2) by simp
    then have "st_status st \<noteq> ''done''" by (auto split: if_splits)
    with xs Cons.prems(2) have "filter (\<lambda>x. st_status x \<noteq> ''done'') xs = []"
      by simp
    then have "list_all (\<lambda>x. st_status x = ''done'') xs"
      by (simp add: filter_empty_conv list_all_iff)
    with True show ?thesis by (simp add: allDone_def)
  next
    case False
    with Cons.prems have f: "find Q xs = Some st" by simp
    have "st_status x = ''done''"
    proof (rule ccontr)
      assume "st_status x \<noteq> ''done''"
      with Cons.prems(2) have "x = st" "filter (\<lambda>x. st_status x \<noteq> ''done'') xs = []" by simp_all
      with find_SomeD [OF f] have "st_status st = ''done''"
        by (auto simp: filter_empty_conv)
      with \<open>x = st\<close> \<open>st_status x \<noteq> ''done''\<close> show False by simp
    qed
    with Cons.prems(2) have "filter (\<lambda>x. st_status x \<noteq> ''done'') xs = [st]" by simp
    from Cons.IH [OF f this] False \<open>st_status x = ''done''\<close> show ?thesis
      by (simp add: allDone_def)
  qed
qed

lemma allDone_map_done: "allDone (map (\<lambda>st. st\<lparr>st_status := ''done''\<rparr>) sts)"
  by (induction sts) (simp_all add: allDone_def)

lemma map_done_idem: "allDone sts \<Longrightarrow> map (\<lambda>st. st\<lparr>st_status := ''done''\<rparr>) sts = sts"
  by (induction sts) (simp_all add: allDone_def)

lemma parseInt_1: "parseInt (str ''1'') = Num 1"
  by (simp add: parseInt_def is_ws_def is_digit_of_def digit_val_def digits_value_def Let_def
      str_simps cu_def to_number_small)

lemma parseInt_2: "parseInt (str ''2'') = Num 2"
  by (simp add: parseInt_def is_ws_def is_digit_of_def digit_val_def digits_value_def Let_def
      str_simps cu_def to_number_small)

text \<open>
  The parser at the edges: a number beyond \<open>2^53\<close> is rounded, the white space of
  Unicode is skipped, a fraction and an exponent are cut off.
\<close>

lemma parseInt_rounds: "parseInt (str ''9007199254740993'') = Num 9007199254740992"
  by (simp add: parseInt_def is_ws_def is_digit_of_def digit_val_def digits_value_def Let_def
      str_simps cu_def to_number_above_2_53)

lemma parseInt_white_space: "parseInt (0xA0 # 0xFEFF # 0x2003 # str '' -0x1F.5'') = Num (- 31)"
  by (simp add: parseInt_def is_ws_def is_digit_of_def digit_val_def digits_value_def Let_def
      str_simps cu_def to_number_small)

lemma parseInt_exponent: "parseInt (str ''1e+21'') = Num 1"
  by (simp add: parseInt_def is_ws_def is_digit_of_def digit_val_def digits_value_def Let_def
      str_simps cu_def to_number_small)

lemma update_first_const_fix:
  "P y \<Longrightarrow> findIndex P (update_first P (\<lambda>_. y) xs) = Some j \<Longrightarrow>
   (update_first P (\<lambda>_. y) xs)[j := y] = update_first P (\<lambda>_. y) xs"
proof (induction xs arbitrary: j)
  case Nil
  then show ?case by simp
next
  case (Cons x xs)
  show ?case
  proof (cases "P x")
    case True
    with Cons.prems show ?thesis by simp
  next
    case False
    with Cons.prems obtain i where "findIndex P (update_first P (\<lambda>_. y) xs) = Some i" "j = Suc i"
      by (auto split: option.splits)
    with Cons.IH [OF Cons.prems(1) this(1)] False show ?thesis by simp
  qed
qed

lemma getNextTaskId_RangeError:
  "maxArguments < length ts \<Longrightarrow> getNextTaskId maxArguments ts = Inl RangeError"
  by (auto simp: getNextTaskId_def)

subsection \<open>Facts about the two schedulers\<close>

lemma last_digits_of: "last (digits_of n) = digit_unit (n mod 10)"
  by (subst digits_of.simps) simp

lemma digits_of_nonempty: "digits_of n \<noteq> []"
  by (subst digits_of.simps) simp

lemma unat_digit_unit: "d < 10 \<Longrightarrow> unat (digit_unit d) = 48 + d"
  unfolding digit_unit_def by (simp only: unat_of_nat) simp

lemma last_exponent_form:
  "last (exponent_form v k) = digit_unit ((length (digits_of v) - 1) mod 10)"
  by (simp add: exponent_form_def Let_def digits_of_nonempty last_digits_of split: list.splits)

lemma last_toString_nat: "\<exists>d<10. last (toString_nat m) = digit_unit d"
proof -
  obtain v k where s: "shortest (length (digits_of m)) 1 m = (v, k)"
    by (cases "shortest (length (digits_of m)) 1 m")
  show ?thesis
  proof (cases "length (digits_of v) \<le> 21")
    case True
    with s have "last (toString_nat m) = digit_unit (v mod 10)"
      by (simp add: toString_nat_def last_digits_of)
    then show ?thesis by (intro exI [of _ "v mod 10"]) simp
  next
    case False
    with s have "last (toString_nat m) = digit_unit ((length (digits_of v) - 1) mod 10)"
      by (simp add: toString_nat_def last_exponent_form)
    then show ?thesis by (intro exI [of _ "(length (digits_of v) - 1) mod 10"]) simp
  qed
qed

lemma toString_nat_nonempty: "toString_nat m \<noteq> []"
  by (simp add: toString_nat_def exponent_form_def Let_def digits_of_nonempty str_def
      split: prod.splits list.splits)

lemma last_toString_int: "unat (last (toString_int i)) \<le> 57"
proof -
  have "last (toString_int i) = last (toString_nat (nat (if i < 0 then - i else i)))"
    by (simp add: toString_int_def toString_nat_nonempty)
  moreover obtain d where "d < 10"
    "last (toString_nat (nat (if i < 0 then - i else i))) = digit_unit d"
    using last_toString_nat by blast
  ultimately show ?thesis
    by (simp add: unat_digit_unit)
qed

lemma toString_int_not_word:
  assumes "unat (last s) \<ge> 97"
  shows "toString_int i \<noteq> s"
  using last_toString_int [of i] assms by auto

lemma priorityOrder_number: "priorityOrder (toString_int i) = None"
proof -
  have "toString_int i \<noteq> str ''high''" "toString_int i \<noteq> str ''medium''"
    "toString_int i \<noteq> str ''low''"
    by (rule toString_int_not_word; simp add: str_simps unat_cu)+
  then show ?thesis
    by (simp add: priorityOrder_def)
qed

lemma byPriorityOrder_NaN: "byPriorityOrder a b = None"
  by (simp add: byPriorityOrder_def priorityOrder_number)

lemma insert_by_NaN: "insert_by byPriorityOrder x ys = x # ys"
  by (cases ys) (simp_all add: byPriorityOrder_NaN sortCompare_def)

lemma js_sort_NaN: "js_sort byPriorityOrder xs = xs"
  by (induction xs) (simp_all add: js_sort_def insert_by_NaN)

lemma nextPending_script_first:
  "nextPending_script ts = find (\<lambda>t. status t = ''pending'') ts"
  by (simp add: nextPending_script_def js_sort_NaN Let_def nth_opt_filter find_filter_empty)

lemma insert_by_head:
  "nth_opt (insert_by byPriority x ys) 0 =
     Some (case nth_opt ys 0 of None \<Rightarrow> x | Some y \<Rightarrow> if priority x \<le> priority y then x else y)"
  by (cases ys) (simp_all add: byPriority_def sortCompare_def)

lemma js_sort_Cons: "js_sort cmp (x # xs) = insert_by cmp x (js_sort cmp xs)"
  by (simp add: js_sort_def)

lemma js_sort_head:
  "xs \<noteq> [] \<Longrightarrow>
   \<exists>m pre post. nth_opt (js_sort byPriority xs) 0 = Some m \<and> xs = pre @ m # post
     \<and> (\<forall>u \<in> set pre. priority m < priority u) \<and> (\<forall>u \<in> set post. priority m \<le> priority u)"
proof (induction xs)
  case Nil
  then show ?case by simp
next
  case (Cons x xs)
  show ?case
  proof (cases "xs = []")
    case True
    then show ?thesis
      by (intro exI [of _ x] exI [of _ "[]"]) (simp add: js_sort_def)
  next
    case False
    from Cons.IH [OF False] obtain m pre post where
      h: "nth_opt (js_sort byPriority xs) 0 = Some m" and xs: "xs = pre @ m # post"
      and lt: "\<forall>u \<in> set pre. priority m < priority u"
      and le: "\<forall>u \<in> set post. priority m \<le> priority u"
      by blast
    show ?thesis
    proof (cases "priority x \<le> priority m")
      case True
      have "nth_opt (js_sort byPriority (x # xs)) 0 = Some x"
        using h True by (simp add: js_sort_Cons insert_by_head)
      moreover have "\<forall>u \<in> set xs. priority x \<le> priority u"
        using True lt le xs by fastforce
      ultimately show ?thesis
        by (intro exI [of _ x] exI [of _ "[]"] exI [of _ xs]) simp
    next
      case False
      have "nth_opt (js_sort byPriority (x # xs)) 0 = Some m"
        using h False by (simp add: js_sort_Cons insert_by_head)
      moreover have "\<forall>u \<in> set (x # pre). priority m < priority u"
        using False lt by simp
      ultimately show ?thesis
        using xs le
        by (intro exI [of _ m] exI [of _ "x # pre"] exI [of _ post]) simp
    qed
  qed
qed

lemma filter_split:
  "filter P ts = pre @ m # post \<Longrightarrow>
   \<exists>pre' post'. ts = pre' @ m # post' \<and> filter P pre' = pre \<and> filter P post' = post \<and> P m"
proof (induction ts arbitrary: pre)
  case Nil
  then show ?case by simp
next
  case (Cons t ts)
  show ?case
  proof (cases "P t")
    case False
    with Cons.prems have "filter P ts = pre @ m # post" by simp
    from Cons.IH [OF this] obtain pre' post' where
      "ts = pre' @ m # post'" "filter P pre' = pre" "filter P post' = post" "P m"
      by blast
    with False show ?thesis
      by (intro exI [of _ "t # pre'"] exI [of _ post']) simp
  next
    case True
    show ?thesis
    proof (cases pre)
      case Nil
      with True Cons.prems have "t = m" "filter P ts = post" by simp_all
      with True Nil show ?thesis
        by (intro exI [of _ "[]"] exI [of _ ts]) simp
    next
      case (Cons p ps)
      with True Cons.prems have tp: "t = p" and "filter P ts = ps @ m # post" by simp_all
      from Cons.IH [OF this(2)] obtain pre' post' where
        "ts = pre' @ m # post'" "filter P pre' = ps" "filter P post' = post" "P m"
        by blast
      with True tp Cons show ?thesis
        by (intro exI [of _ "t # pre'"] exI [of _ post']) simp
    qed
  qed
qed

lemma nextPending_None: "nextPending ts = None \<longleftrightarrow> (\<forall>t \<in> set ts. status t \<noteq> ''pending'')"
proof (cases "filter (\<lambda>t. status t = ''pending'') ts = []")
  case True
  then show ?thesis
    by (auto simp: nextPending_def Let_def filter_empty_conv)
next
  case False
  from js_sort_head [OF this] obtain m where
    "nth_opt (js_sort byPriority (filter (\<lambda>t. status t = ''pending'') ts)) 0 = Some m"
    by blast
  moreover from False have "ts \<noteq> []" by auto
  ultimately show ?thesis
    using False by (auto simp: nextPending_def Let_def filter_empty_conv)
qed

lemma nextPending_Some:
  assumes "nextPending ts = Some m"
  shows "\<exists>pre post. ts = pre @ m # post \<and> status m = ''pending''
           \<and> (\<forall>u \<in> set pre. status u = ''pending'' \<longrightarrow> priority m < priority u)
           \<and> (\<forall>u \<in> set post. status u = ''pending'' \<longrightarrow> priority m \<le> priority u)"
proof -
  let ?P = "\<lambda>t. status t = ''pending''"
  from assms have ne: "filter ?P ts \<noteq> []"
    and h: "nth_opt (js_sort byPriority (filter ?P ts)) 0 = Some m"
    by (auto simp: nextPending_def Let_def split: if_splits)
  from js_sort_head [OF ne] h obtain pre post where
    f: "filter ?P ts = pre @ m # post"
    and lt: "\<forall>u \<in> set pre. priority m < priority u"
    and le: "\<forall>u \<in> set post. priority m \<le> priority u"
    by auto
  from filter_split [OF f] obtain pre' post' where
    ts: "ts = pre' @ m # post'" and p: "filter ?P pre' = pre" "filter ?P post' = post" "?P m"
    by blast
  from lt p(1) have "\<forall>u \<in> set pre'. status u = ''pending'' \<longrightarrow> priority m < priority u"
    by auto
  moreover from le p(2) have "\<forall>u \<in> set post'. status u = ''pending'' \<longrightarrow> priority m \<le> priority u"
    by auto
  ultimately show ?thesis
    using ts p(3) by blast
qed

subsection \<open>Facts about the history log and the tracker\<close>

lemma loadContext_frame:
  assumes "loadContext w = (r, w1)"
  shows "tasksFile w1 = tasksFile w \<and> tasksWritable w1 = tasksWritable w
         \<and> contextWritable w1 = contextWritable w \<and> clock w1 = clock w
         \<and> history w1 = history w"
  using assms
  by (auto simp: loadContext_def initContext_def readContextFile_def now_def history_def
      initialContext_def split: stored.splits if_splits)

lemma loadContext_Some:
  assumes "loadContext w = (Some c, w1)"
  shows "contextFile w1 = Content c"
  using assms
  by (auto simp: loadContext_def initContext_def readContextFile_def now_def
      split: stored.splits if_splits)

lemma addHistoryEntry_frame:
  assumes "addHistoryEntry tid act summ det w = (r, w')"
  shows "tasksFile w' = tasksFile w \<and> tasksWritable w' = tasksWritable w
         \<and> contextWritable w' = contextWritable w \<and> clock w' = clock w"
proof -
  obtain c w1 where l: "loadContext w = (c, w1)" by (cases "loadContext w")
  note f = loadContext_frame [OF l]
  show ?thesis
    using assms l f
    by (auto simp: addHistoryEntry_def loadTasks_tracker_def saveContext_def now_def
        split: option.splits stored.splits if_splits)
qed

lemma addHistoryEntry_history:
  assumes "addHistoryEntry tid act summ det w = (r, w')"
  shows "history w' = history w
         \<or> (\<exists>e. history w' = history w @ [e] \<and> action e = act \<and> Num (taskId e) = tid
                 \<and> summary e = summ \<and> details e = det)"
proof -
  obtain c w1 where l: "loadContext w = (c, w1)" by (cases "loadContext w")
  note f = loadContext_frame [OF l]
  show ?thesis
  proof (cases c)
    case None
    with assms l f show ?thesis by (simp add: addHistoryEntry_def)
  next
    case (Some ctx)
    with l have cf: "contextFile w1 = Content ctx" by (simp add: loadContext_Some)
    then have h: "history w = taskHistory ctx" using f by (simp add: history_def)
    show ?thesis
    proof (cases "loadTasks_tracker w1")
      case None
      with assms l Some f show ?thesis by (simp add: addHistoryEntry_def)
    next
      case d: (Some d)
      show ?thesis
      proof (cases "find (\<lambda>t. Num (task_id t) = tid) (tasks d)")
        case None
        with assms l Some d f show ?thesis by (simp add: addHistoryEntry_def)
      next
        case t: (Some t)
        from find_SomeD [OF t] have "Num (task_id t) = tid" by simp
        then show ?thesis
          using assms l Some d t h
          by (auto simp: addHistoryEntry_def saveContext_def now_def history_def cf
              split: if_splits)
      qed
    qed
  qed
qed

lemma updateTaskStatus_found:
  assumes "tasksFile w = Content d"
    and "tasksWritable w"
    and "find (\<lambda>t. Num (task_id t) = tid) (tasks d) = Some t"
    and "updateTaskStatus tid st summ w = (r, w')"
  shows "tasksFile w' =
           Content (d\<lparr>tasks := update_first (\<lambda>t. Num (task_id t) = tid)
                      (\<lambda>t. t\<lparr>status := st, updated_at := clock w (ticks w)\<rparr>) (tasks d)\<rparr>)"
    and "tasksWritable w'"
    and "contextWritable w' = contextWritable w"
    and "clock w' = clock w"
    and "history w' = history w
         \<or> (\<exists>e. history w' = history w @ [e] \<and> action e = historyAction st (status t)
                 \<and> Num (taskId e) = tid \<and> summary e = summ
                 \<and> details e = Some (status t, st))"
proof -
  let ?w2 = "w\<lparr>ticks := Suc (ticks w),
               tasksFile := Content (d\<lparr>tasks := update_first (\<lambda>t. Num (task_id t) = tid)
                      (\<lambda>t. t\<lparr>status := st, updated_at := clock w (ticks w)\<rparr>) (tasks d)\<rparr>)\<rparr>"
  from assms have a: "addHistoryEntry tid (historyAction st (status t)) summ
                        (Some (status t, st)) ?w2 = (r, w')"
    by (simp add: updateTaskStatus_def loadTasks_tracker_def now_def)
  note f = addHistoryEntry_frame [OF a]
  note h = addHistoryEntry_history [OF a]
  have hw: "history ?w2 = history w" by (simp add: history_def)
  from f show "tasksFile w' =
           Content (d\<lparr>tasks := update_first (\<lambda>t. Num (task_id t) = tid)
                      (\<lambda>t. t\<lparr>status := st, updated_at := clock w (ticks w)\<rparr>) (tasks d)\<rparr>)" by simp
  from f assms(2) show "tasksWritable w'" by simp
  from f show "contextWritable w' = contextWritable w" by simp
  from f show "clock w' = clock w" by simp
  from h hw show "history w' = history w
         \<or> (\<exists>e. history w' = history w @ [e] \<and> action e = historyAction st (status t)
                 \<and> Num (taskId e) = tid \<and> summary e = summ
                 \<and> details e = Some (status t, st))" by simp
qed

lemma getTaskHistory_frame:
  assumes "getTaskHistory tid w = (r, w')"
  shows "tasksFile w' = tasksFile w \<and> tasksWritable w' = tasksWritable w
         \<and> contextWritable w' = contextWritable w \<and> clock w' = clock w
         \<and> history w' = history w"
proof -
  obtain c w1 where l: "loadContext w = (c, w1)" by (cases "loadContext w")
  from assms l have "w' = w1"
    by (auto simp: getTaskHistory_def split: option.splits)
  with loadContext_frame [OF l] show ?thesis by simp
qed

lemma prepare_frame:
  assumes "prepareTaskContextForCopilot tid w = (r, w')"
  shows "tasksFile w' = tasksFile w \<and> tasksWritable w' = tasksWritable w
         \<and> contextWritable w' = contextWritable w \<and> clock w' = clock w
         \<and> history w' = history w"
proof -
  obtain h w1 where g: "getTaskHistory tid w = (h, w1)" by (cases "getTaskHistory tid w")
  from assms g have "w' = w \<or> w' = w1"
    by (auto simp: prepareTaskContextForCopilot_def split: option.splits)
  with getTaskHistory_frame [OF g] show ?thesis by auto
qed

lemma loadContext_present: "contextFile w = Content c \<Longrightarrow> loadContext w = (Some c, w)"
  by (simp add: loadContext_def readContextFile_def)

lemma prepare_present:
  "contextFile w = Content c \<Longrightarrow> snd (prepareTaskContextForCopilot tid w) = w"
  by (auto simp: prepareTaskContextForCopilot_def getTaskHistory_def loadContext_present
      split: option.splits)

lemma updateContextAfter_frame:
  assumes "updateContextAfterTaskCompletion tid summ w = (r, w')"
  shows "tasksFile w' = tasksFile w \<and> tasksWritable w' = tasksWritable w
         \<and> contextWritable w' = contextWritable w \<and> clock w' = clock w
         \<and> history w' = history w"
proof -
  obtain c w1 where l: "loadContext w = (c, w1)" by (cases "loadContext w")
  note f = loadContext_frame [OF l]
  show ?thesis
  proof (cases c)
    case None
    with assms l f show ?thesis
      by (simp add: updateContextAfterTaskCompletion_def)
  next
    case (Some ctx)
    with l have cf: "contextFile w1 = Content ctx" by (simp add: loadContext_Some)
    let ?c' = "ctx\<lparr>lastUpdated := clock w1 (ticks w1),
                  currentContext := \<lparr>activeTask = None,
                    cc_summary = (if truthy_summary summ then summ else TaskNumberFinished tid)\<rparr>\<rparr>"
    obtain b w3 where s: "saveContext ?c' (w1\<lparr>ticks := Suc (ticks w1)\<rparr>) = (b, w3)"
      by (cases "saveContext ?c' (w1\<lparr>ticks := Suc (ticks w1)\<rparr>)")
    then have f3: "tasksFile w3 = tasksFile w1 \<and> tasksWritable w3 = tasksWritable w1
         \<and> contextWritable w3 = contextWritable w1 \<and> clock w3 = clock w1
         \<and> history w3 = history w1"
      using cf by (auto simp: saveContext_def history_def split: if_splits)
    show ?thesis
    proof (cases "getNextTask_tracker w3")
      case None
      with assms l Some s have "w' = w3"
        by (simp add: updateContextAfterTaskCompletion_def now_def)
      with f f3 show ?thesis by simp
    next
      case nt: (Some nt)
      obtain cc w4 where p: "prepareTaskContextForCopilot (task_id nt) w3 = (cc, w4)"
        by (cases "prepareTaskContextForCopilot (task_id nt) w3")
      with assms l Some s nt have "w' = w4"
        by (simp add: updateContextAfterTaskCompletion_def now_def)
      with f f3 prepare_frame [OF p] show ?thesis by simp
    qed
  qed
qed

lemma loadContext_healthy:
  assumes "contextWritable w" and "contextFile w \<noteq> Unreadable"
  obtains c w1 where "loadContext w = (Some c, w1)" and "contextFile w1 = Content c"
    and "taskHistory c = history w" and "activeTask (currentContext c) = storedActiveTask w"
proof (cases "contextFile w")
  case Absent
  with assms(1) show ?thesis
    by (intro that [of "initialContext (clock w (ticks w))"
          "w\<lparr>ticks := Suc (ticks w), contextFile := Content (initialContext (clock w (ticks w)))\<rparr>"])
       (simp_all add: loadContext_def initContext_def now_def initialContext_def history_def
          storedActiveTask_def)
next
  case Unreadable
  with assms(2) show ?thesis by simp
next
  case (Content c)
  then show ?thesis
    by (intro that [of c w]) (simp_all add: loadContext_present history_def storedActiveTask_def)
qed

lemma addHistoryEntry_healthy:
  assumes cw: "contextWritable w" and cu: "contextFile w \<noteq> Unreadable"
    and d: "tasksFile w = Content d"
    and t: "find (\<lambda>t. Num (task_id t) = tid) (tasks d) = Some t"
    and a: "addHistoryEntry tid act summ det w = (r, w')"
  shows "\<exists>e. history w' = history w @ [e] \<and> action e = act \<and> taskId e = task_id t
              \<and> taskTitle e = title t \<and> summary e = summ \<and> details e = det"
    and "contextFile w' \<noteq> Unreadable"
    and "storedActiveTask w' =
           (if act = ''start'' then Some (task_id t)
            else if act = ''complete'' then None else storedActiveTask w)"
proof -
  from loadContext_healthy [OF cw cu] obtain c w1 where
    l: "loadContext w = (Some c, w1)" and cf: "contextFile w1 = Content c"
    and h: "taskHistory c = history w" and at: "activeTask (currentContext c) = storedActiveTask w"
    by blast
  note f = loadContext_frame [OF l]
  from f d have d1: "tasksFile w1 = Content d" by simp
  from f cw have cw1: "contextWritable w1" by simp
  from a l d1 t cw1 have w': "w' = w1\<lparr>ticks := Suc (Suc (ticks w1)),
      contextFile := Content (c\<lparr>taskHistory := taskHistory c @
                                 [\<lparr>taskId = task_id t, taskTitle = title t, action = act,
                                   summary = summ, timestamp = clock w1 (ticks w1), details = det\<rparr>],
                               lastUpdated := clock w1 (Suc (ticks w1)),
                               currentContext :=
                                 \<lparr>activeTask =
                                    (if act = ''start'' then Some (task_id t)
                                     else if act = ''complete'' then None
                                     else activeTask (currentContext c)),
                                  cc_summary = summ\<rparr>\<rparr>)\<rparr>"
    by (simp add: addHistoryEntry_def loadTasks_tracker_def now_def saveContext_def)
  show "\<exists>e. history w' = history w @ [e] \<and> action e = act \<and> taskId e = task_id t
              \<and> taskTitle e = title t \<and> summary e = summ \<and> details e = det"
  proof -
    have "history w' = taskHistory c @
            [\<lparr>taskId = task_id t, taskTitle = title t, action = act,
              summary = summ, timestamp = clock w1 (ticks w1), details = det\<rparr>]"
      by (simp add: w' history_def)
    with h show ?thesis by simp
  qed
  show "contextFile w' \<noteq> Unreadable" by (simp add: w')
  show "storedActiveTask w' =
           (if act = ''start'' then Some (task_id t)
            else if act = ''complete'' then None else storedActiveTask w)"
  proof -
    have "storedActiveTask w' =
            (if act = ''start'' then Some (task_id t)
             else if act = ''complete'' then None else activeTask (currentContext c))"
      by (simp add: w' storedActiveTask_def)
    with at show ?thesis by simp
  qed
qed

lemma updateTaskStatus_healthy:
  assumes cw: "contextWritable w" and cu: "contextFile w \<noteq> Unreadable"
    and d: "tasksFile w = Content d" and tw: "tasksWritable w"
    and t: "find (\<lambda>t. Num (task_id t) = tid) (tasks d) = Some t"
    and u: "updateTaskStatus tid st summ w = (r, w')"
  shows "\<exists>e. history w' = history w @ [e] \<and> action e = historyAction st (status t)
              \<and> taskId e = task_id t \<and> taskTitle e = title t \<and> summary e = summ
              \<and> details e = Some (status t, st)"
    and "contextFile w' \<noteq> Unreadable"
    and "storedActiveTask w' =
           (if historyAction st (status t) = ''start'' then Some (task_id t)
            else if historyAction st (status t) = ''complete'' then None else storedActiveTask w)"
proof -
  let ?P = "\<lambda>t. Num (task_id t) = tid"
  let ?g = "\<lambda>t. t\<lparr>status := st, updated_at := clock w (ticks w)\<rparr>"
  let ?d2 = "d\<lparr>tasks := update_first ?P ?g (tasks d)\<rparr>"
  let ?w2 = "w\<lparr>ticks := Suc (ticks w), tasksFile := Content ?d2\<rparr>"
  from u d tw t have a: "addHistoryEntry tid (historyAction st (status t)) summ
                        (Some (status t, st)) ?w2 = (r, w')"
    by (simp add: updateTaskStatus_def loadTasks_tracker_def now_def)
  from find_SomeD [OF t] have "?P t" by simp
  then have "?P (?g t)" by simp
  then have f: "find ?P (tasks ?d2) = Some (?g t)"
    using find_update_first [where P = ?P and f = ?g and x = t and xs = "tasks d"] t by simp
  have 1: "contextWritable ?w2" "contextFile ?w2 \<noteq> Unreadable" "tasksFile ?w2 = Content ?d2"
    using cw cu by simp_all
  note ah = addHistoryEntry_healthy [OF 1 f a]
  have hw: "history ?w2 = history w" "storedActiveTask ?w2 = storedActiveTask w"
    by (simp_all add: history_def storedActiveTask_def)
  from ah(1) hw show "\<exists>e. history w' = history w @ [e] \<and> action e = historyAction st (status t)
              \<and> taskId e = task_id t \<and> taskTitle e = title t \<and> summary e = summ
              \<and> details e = Some (status t, st)" by simp
  from ah(2) show "contextFile w' \<noteq> Unreadable" .
  from ah(3) hw show "storedActiveTask w' =
           (if historyAction st (status t) = ''start'' then Some (task_id t)
            else if historyAction st (status t) = ''complete'' then None else storedActiveTask w)"
    by simp
qed

lemma updateContextAfter_healthy:
  assumes cw: "contextWritable w" and cu: "contextFile w \<noteq> Unreadable"
    and u: "updateContextAfterTaskCompletion tid summ w = (r, w')"
  shows "storedActiveTask w' = None" and "cu_success r"
proof -
  from loadContext_healthy [OF cw cu] obtain c w1 where
    l: "loadContext w = (Some c, w1)" and cf: "contextFile w1 = Content c"
    by blast
  note f = loadContext_frame [OF l]
  let ?c' = "c\<lparr>lastUpdated := clock w1 (ticks w1),
                currentContext := \<lparr>activeTask = None,
                  cc_summary = (if truthy_summary summ then summ else TaskNumberFinished tid)\<rparr>\<rparr>"
  let ?w3 = "w1\<lparr>ticks := Suc (ticks w1), contextFile := Content ?c'\<rparr>"
  have s: "saveContext ?c' (w1\<lparr>ticks := Suc (ticks w1)\<rparr>) = (True, ?w3)"
    using f cw by (simp add: saveContext_def)
  have p: "snd (prepareTaskContextForCopilot k ?w3) = ?w3" for k
    by (rule prepare_present [where c = ?c']) simp
  have "w' = ?w3 \<and> cu_success r"
  proof (cases "getNextTask_tracker ?w3")
    case None
    with u l s show ?thesis
      by (auto simp: updateContextAfterTaskCompletion_def now_def)
  next
    case (Some nt)
    with u l s p [of "task_id nt"] show ?thesis
      by (auto simp: updateContextAfterTaskCompletion_def now_def split: prod.splits)
  qed
  then show "storedActiveTask w' = None" and "cu_success r"
    by (simp_all add: storedActiveTask_def)
qed

subsection \<open>Facts about the start commands\<close>

lemma getCurrentTask_find:
  "tasksFile w = Content d \<Longrightarrow>
   getCurrentTask w = Returned (find (\<lambda>t. status t = ''in-progress'') (tasks d))"
  by (simp add: getCurrentTask_def loadTasks_def Let_def nth_opt_filter find_filter_empty)

lemma start_unknown_id:
  assumes "tasksFile w = Content d"
    and "s \<noteq> []"
    and "\<forall>t \<in> set (tasks d). Num (task_id t) \<noteq> parseInt s"
  shows "startTaskExecution (Some s) w = (Returned (ExecNotFound (Some s)), w)"
    and "startNextTask False (Some s) w = (Returned (NotFoundOrNotPending (Some s)), w)"
proof -
  from assms(3) have 1: "find (\<lambda>t. Num (task_id t) = parseInt s) (tasks d) = None"
    by (auto simp: find_None_iff)
  from assms(3) have 2:
    "find (\<lambda>t. Num (task_id t) = parseInt s \<and> status t = ''pending'') (tasks d) = None"
    by (auto simp: find_None_iff)
  show "startTaskExecution (Some s) w = (Returned (ExecNotFound (Some s)), w)"
    using assms(1,2) 1
    by (simp add: startTaskExecution_def loadTasks_def truthy_string_def parseInt_opt_def)
  show "startNextTask False (Some s) w = (Returned (NotFoundOrNotPending (Some s)), w)"
    using assms(1,2) 2
    by (simp add: startNextTask_def loadTasks_def truthy_string_def parseInt_opt_def)
qed

lemma startNextTask_refuses:
  assumes "tasksFile w = Content d"
    and "s \<noteq> []"
    and "find (\<lambda>t. Num (task_id t) = parseInt s \<and> status t = ''pending'') (tasks d) = None"
  shows "startNextTask False (Some s) w = (Returned (NotFoundOrNotPending (Some s)), w)"
  using assms
  by (simp add: startNextTask_def loadTasks_def truthy_string_def parseInt_opt_def)

lemma startNextTask_started:
  assumes "tasksFile w = Content d"
    and "startNextTask False tok w = (Returned (Started t cc), w')"
  shows "\<exists>s t0. tok = Some s \<and> s \<noteq> []
           \<and> find (\<lambda>t. Num (task_id t) = parseInt s \<and> status t = ''pending'') (tasks d) = Some t0
           \<and> find (\<lambda>t. status t = ''in-progress'') (tasks d) = None"
  using assms
  by (auto simp: startNextTask_def loadTasks_def getCurrentTask_find truthy_string_def
      parseInt_opt_def Let_def
      split: option.splits if_splits prod.splits bool.splits)

lemma startNextTask_active:
  assumes "tasksFile w = Content d"
    and "s \<noteq> []"
    and "find (\<lambda>t. Num (task_id t) = parseInt s \<and> status t = ''pending'') (tasks d) = Some t0"
    and "find (\<lambda>t. status t = ''in-progress'') (tasks d) = Some cur"
  shows "startNextTask False (Some s) w = (Returned (AlreadyActive cur), w)"
  using assms
  by (simp add: startNextTask_def loadTasks_def getCurrentTask_find truthy_string_def
      parseInt_opt_def)

lemma startNextTask_ok:
  assumes "tasksFile w = Content d"
    and "s \<noteq> []"
    and "tasksWritable w"
    and "find (\<lambda>t. Num (task_id t) = parseInt s \<and> status t = ''pending'') (tasks d) = Some t0"
    and "find (\<lambda>t. status t = ''in-progress'') (tasks d) = None"
  shows "\<exists>cc w'. startNextTask False (Some s) w =
           (Returned (Started (t0\<lparr>status := ''in-progress'', updated_at := clock w (ticks w)\<rparr>) cc), w')"
proof -
  let ?P = "\<lambda>t. Num (task_id t) = parseInt s \<and> status t = ''pending''"
  let ?t1 = "t0\<lparr>status := ''in-progress'', updated_at := clock w (ticks w)\<rparr>"
  let ?ts1 = "update_first ?P (\<lambda>_. ?t1) (tasks d)"
  have "?t1 \<in> set ?ts1"
    using update_first_mem [OF assms(4), of "\<lambda>_. ?t1"] by simp
  then have "\<exists>x \<in> set ?ts1. task_id x = task_id t0"
    by (rule rev_bexI) simp
  then have "findIndex (\<lambda>t. task_id t = task_id t0) ?ts1 \<noteq> None"
    by (simp add: findIndex_None_iff)
  then show ?thesis
    using assms
    by (auto simp: startNextTask_def loadTasks_def getCurrentTask_find truthy_string_def
        parseInt_opt_def now_def saveTasks_def Let_def split: prod.splits)
qed

lemma startTaskExecution_any:
  assumes "tasksFile w = Content d"
    and "s \<noteq> []"
    and "tasksWritable w"
    and "find (\<lambda>t. Num (task_id t) = parseInt s) (tasks d) = Some t0"
  shows "fst (startTaskExecution (Some s) w) =
           Returned (ExecStarted (t0\<lparr>status := ''in-progress'', updated_at := clock w (ticks w)\<rparr>))"
proof -
  let ?t1 = "t0\<lparr>status := ''in-progress'', updated_at := clock w (ticks w)\<rparr>"
  let ?ts1 = "update_first (\<lambda>t. Num (task_id t) = parseInt s) (\<lambda>_. ?t1) (tasks d)"
  have "?t1 \<in> set ?ts1"
    using update_first_mem [OF assms(4), of "\<lambda>_. ?t1"] by simp
  then have "\<exists>x \<in> set ?ts1. task_id x = task_id t0"
    by (rule rev_bexI) simp
  then have "findIndex (\<lambda>t. task_id t = task_id t0) ?ts1 \<noteq> None"
    by (simp add: findIndex_None_iff)
  then show ?thesis
    using assms
    by (auto simp: startTaskExecution_def loadTasks_def truthy_string_def parseInt_opt_def
        now_def saveTasks_def Let_def split: prod.splits)
qed

lemma startTaskExecution_store:
  assumes d: "tasksFile w = Content d"
    and s: "s \<noteq> []"
    and wr: "tasksWritable w"
    and t0: "find (\<lambda>t. Num (task_id t) = parseInt s) (tasks d) = Some t0"
  shows "\<exists>ts'. tasksFile (snd (startTaskExecution (Some s) w)) = Content (d\<lparr>tasks := ts'\<rparr>)
           \<and> map status ts'
               = map status (update_first (\<lambda>t. Num (task_id t) = parseInt s)
                               (\<lambda>t. t\<lparr>status := ''in-progress''\<rparr>) (tasks d))"
proof -
  let ?P = "\<lambda>t. Num (task_id t) = parseInt s"
  let ?Q = "\<lambda>t. task_id t = task_id t0"
  let ?t1 = "t0\<lparr>status := ''in-progress'', updated_at := clock w (ticks w)\<rparr>"
  let ?ts1 = "update_first ?P (\<lambda>_. ?t1) (tasks d)"
  let ?d1 = "d\<lparr>tasks := ?ts1\<rparr>"
  let ?w2 = "w\<lparr>ticks := Suc (ticks w), tasksFile := Content ?d1\<rparr>"
  from find_SomeD [OF t0] have p0: "?P t0" by simp
  then have PQ: "?P = ?Q"
    by (metis jsnum.inject(1))
  have q1: "?Q ?t1" by simp
  have mem: "?t1 \<in> set ?ts1"
    using update_first_mem [OF t0, of "\<lambda>_. ?t1"] by simp
  then have "\<exists>x \<in> set ?ts1. ?Q x" by (rule rev_bexI) simp
  then obtain j where j: "findIndex ?Q ?ts1 = Some j"
    by (cases "findIndex ?Q ?ts1") (simp_all add: findIndex_None_iff)
  have fixd: "?ts1[j := ?t1] = ?ts1"
    using update_first_const_fix [of ?Q ?t1 "tasks d" j] q1 j unfolding PQ by simp
  obtain b w3 where u: "updateTaskStatus (Num (task_id t0)) ''in-progress'' (TaskStarted (title t0)) ?w2 = (b, w3)"
    by (cases "updateTaskStatus (Num (task_id t0)) ''in-progress'' (TaskStarted (title t0)) ?w2")
  obtain cc w4 where pr: "prepareTaskContextForCopilot (task_id t0) w3 = (cc, w4)"
    by (cases "prepareTaskContextForCopilot (task_id t0) w3")
  have res: "snd (startTaskExecution (Some s) w) = w4"
    using d s wr t0 j fixd u pr
    by (simp add: startTaskExecution_def loadTasks_def truthy_string_def parseInt_opt_def
        now_def saveTasks_def Let_def)
  have f1: "find (\<lambda>t. Num (task_id t) = Num (task_id t0)) (tasks ?d1) = Some ?t1"
    using find_update_first [where P = ?Q and f = "\<lambda>_. ?t1" and x = t0 and xs = "tasks d"] t0
    unfolding PQ by simp
  have "tasksFile ?w2 = Content ?d1" "tasksWritable ?w2" using wr by simp_all
  note uf = updateTaskStatus_found [OF this f1 u]
  let ?g = "\<lambda>t. t\<lparr>status := ''in-progress'', updated_at := clock ?w2 (ticks ?w2)\<rparr>"
  let ?ts' = "update_first (\<lambda>t. Num (task_id t) = Num (task_id t0)) ?g ?ts1"
  have tf: "tasksFile w4 = Content (d\<lparr>tasks := ?ts'\<rparr>)"
    using uf(1) prepare_frame [OF pr] by simp
  have "map status ?ts' = map status (update_first ?P (\<lambda>t. t\<lparr>status := ''in-progress''\<rparr>) (tasks d))"
  proof -
    have "map status (update_first ?Q ?g ?ts1) = map status ?ts1"
      using update_first_map_same [where P = ?Q and f = ?g and x = ?t1 and xs = ?ts1 and h = status] f1
      by simp
    moreover have "map status (update_first ?Q (\<lambda>_. ?t1) xs)
                   = map status (update_first ?Q (\<lambda>t. t\<lparr>status := ''in-progress''\<rparr>) xs)" for xs
      by (induction xs) simp_all
    ultimately show ?thesis unfolding PQ by simp
  qed
  with tf res show ?thesis by blast
qed

lemma start_guards:
  assumes "tasksFile w = Content d"
    and "s \<noteq> []"
  shows "(\<forall>t cc w'. startNextTask False (Some s) w = (Returned (Started t cc), w') \<longrightarrow>
            (\<exists>t0. find (\<lambda>t. Num (task_id t) = parseInt s \<and> status t = ''pending'') (tasks d)
                    = Some t0)
            \<and> find (\<lambda>t. status t = ''in-progress'') (tasks d) = None)
       \<and> ((\<forall>t \<in> set (tasks d). Num (task_id t) \<noteq> parseInt s) \<longrightarrow>
            startNextTask False (Some s) w = (Returned (NotFoundOrNotPending (Some s)), w)
            \<and> startTaskExecution (Some s) w = (Returned (ExecNotFound (Some s)), w))
       \<and> (\<forall>t0 cur.
            find (\<lambda>t. Num (task_id t) = parseInt s \<and> status t = ''pending'') (tasks d) = Some t0
            \<and> find (\<lambda>t. status t = ''in-progress'') (tasks d) = Some cur \<longrightarrow>
            startNextTask False (Some s) w = (Returned (AlreadyActive cur), w))
       \<and> (\<forall>t0. tasksWritable w
                \<and> find (\<lambda>t. Num (task_id t) = parseInt s) (tasks d) = Some t0 \<longrightarrow>
            fst (startTaskExecution (Some s) w) =
              Returned (ExecStarted (t0\<lparr>status := ''in-progress'',
                                         updated_at := clock w (ticks w)\<rparr>)))"
proof (intro conjI allI impI)
  fix t cc w'
  assume "startNextTask False (Some s) w = (Returned (Started t cc), w')"
  from startNextTask_started [OF assms(1) this]
  show "\<exists>t0. find (\<lambda>t. Num (task_id t) = parseInt s \<and> status t = ''pending'') (tasks d) = Some t0"
    and "find (\<lambda>t. status t = ''in-progress'') (tasks d) = None"
    by auto
next
  assume u: "\<forall>t \<in> set (tasks d). Num (task_id t) \<noteq> parseInt s"
  show "startNextTask False (Some s) w = (Returned (NotFoundOrNotPending (Some s)), w)"
    by (rule start_unknown_id(2) [OF assms u])
  show "startTaskExecution (Some s) w = (Returned (ExecNotFound (Some s)), w)"
    by (rule start_unknown_id(1) [OF assms u])
next
  fix t0 cur
  assume "find (\<lambda>t. Num (task_id t) = parseInt s \<and> status t = ''pending'') (tasks d) = Some t0
          \<and> find (\<lambda>t. status t = ''in-progress'') (tasks d) = Some cur"
  then show "startNextTask False (Some s) w = (Returned (AlreadyActive cur), w)"
    using startNextTask_active [OF assms] by blast
next
  fix t0
  assume "tasksWritable w \<and> find (\<lambda>t. Num (task_id t) = parseInt s) (tasks d) = Some t0"
  then show "fst (startTaskExecution (Some s) w) =
               Returned (ExecStarted (t0\<lparr>status := ''in-progress'',
                                          updated_at := clock w (ticks w)\<rparr>))"
    using startTaskExecution_any [OF assms] by blast
qed

subsection \<open>Facts about the complete command\<close>

lemma complete_nan_id:
  assumes "tasksFile w = Content d"
    and "parseInt (takeWhile (\<lambda>x. x \<noteq> cu CHR ''.'') tok) = NaN"
  shows "completeTaskWithContextUpdate tok summ w =
           (Returned \<lparr>success = False, message = TaskNotFound NaN, nextTask = None,
                      copilotContext = None\<rparr>, w)"
proof (cases "includes_char (cu CHR ''.'') tok")
  case True
  then show ?thesis
    using assms
    by (simp add: completeTaskWithContextUpdate_def loadTasks_def completeSubtask_def
        split_on_first parseInt_opt_def find_False Let_def)
next
  case False
  then show ?thesis
    using assms
    by (simp add: completeTaskWithContextUpdate_def loadTasks_def completeMainTask_def
        split_on_plain find_False Let_def)
qed

lemma completionEnd_frame:
  assumes "completionEnd tok summ mid ok msg w = (r, w')"
  shows "success r = ok \<and> message r = msg \<and> tasksFile w' = tasksFile w
         \<and> tasksWritable w' = tasksWritable w \<and> contextWritable w' = contextWritable w
         \<and> clock w' = clock w \<and> history w' = history w"
proof (cases ok)
  case False
  with assms show ?thesis by (auto simp: completionEnd_def)
next
  case True
  obtain u w1 where
    u: "updateContextAfterTaskCompletion mid (or_template summ (TaskFinished tok)) w = (u, w1)"
    by (cases "updateContextAfterTaskCompletion mid (or_template summ (TaskFinished tok)) w")
  with True assms have "w' = w1" "success r = ok" "message r = msg"
    by (auto simp: completionEnd_def)
  with updateContextAfter_frame [OF u] show ?thesis by simp
qed

lemma completeMainTask_ok:
  assumes d: "tasksFile w = Content d"
    and wr: "tasksWritable w"
    and t0: "find (\<lambda>t. Num (task_id t) = parseInt tok) (tasks d) = Some t0"
    and c: "completeMainTask tok summ mid d w = (r, w')"
  shows "success r"
    and "message r = TaskMarkedDone (parseInt tok) (title t0)"
    and "\<exists>ts'. tasksFile w' = Content (d\<lparr>tasks := ts'\<rparr>)
           \<and> find (\<lambda>t. Num (task_id t) = parseInt tok) ts'
               = Some (t0\<lparr>status := ''done'', updated_at := clock w (Suc (ticks w)),
                          subtasks := map (\<lambda>st. st\<lparr>st_status := ''done''\<rparr>) (subtasks t0)\<rparr>)
           \<and> (\<forall>h. h (t0\<lparr>status := ''done'', updated_at := clock w (Suc (ticks w)),
                          subtasks := map (\<lambda>st. st\<lparr>st_status := ''done''\<rparr>) (subtasks t0)\<rparr>) = h t0
                  \<longrightarrow> map h ts' = map h (tasks d))"
    and "tasksWritable w'"
    and "contextWritable w' = contextWritable w"
    and "clock w' = clock w"
    and "history w' = history w
         \<or> (\<exists>e. history w' = history w @ [e] \<and> action e = ''update''
                 \<and> Num (taskId e) = parseInt tok
                 \<and> summary e = or_template summ (TaskCompleted (title t0) (length (subtasks t0)))
                 \<and> details e = Some (''done'', ''done''))"
proof -
  let ?P = "\<lambda>t. Num (task_id t) = parseInt tok"
  let ?f = "\<lambda>t. t\<lparr>status := ''done'', updated_at := clock w (ticks w),
                    subtasks := (if length (subtasks t) > 0
                                 then map (\<lambda>st. st\<lparr>st_status := ''done''\<rparr>) (subtasks t)
                                 else subtasks t)\<rparr>"
  let ?d1 = "d\<lparr>tasks := update_first ?P ?f (tasks d)\<rparr>"
  let ?w2 = "w\<lparr>ticks := Suc (ticks w), tasksFile := Content ?d1\<rparr>"
  let ?g = "\<lambda>t. t\<lparr>status := ''done'', updated_at := clock ?w2 (ticks ?w2)\<rparr>"
  let ?summ = "or_template summ (TaskCompleted (title t0) (length (subtasks t0)))"
  obtain b w3 where u: "updateTaskStatus (parseInt tok) ''done'' ?summ ?w2 = (b, w3)"
    by (cases "updateTaskStatus (parseInt tok) ''done'' ?summ ?w2")
  from c d wr t0 u have e: "completionEnd tok summ mid True (TaskMarkedDone (parseInt tok) (title t0)) w3 = (r, w')"
    by (simp add: completeMainTask_def now_def saveTasks_def Let_def)
  note ef = completionEnd_frame [OF e]
  from find_SomeD [OF t0] have p0: "?P t0" by simp
  then have f1: "find ?P (tasks ?d1) = Some (?f t0)"
    using find_update_first [of ?P ?f t0 "tasks d"] t0 by simp
  have "tasksFile ?w2 = Content ?d1" "tasksWritable ?w2" using wr by simp_all
  note uf = updateTaskStatus_found [OF this f1 u]
  from ef show "success r" by simp
  from ef show "message r = TaskMarkedDone (parseInt tok) (title t0)" by simp
  have gf: "?g (?f t0) = t0\<lparr>status := ''done'', updated_at := clock w (Suc (ticks w)),
                          subtasks := map (\<lambda>st. st\<lparr>st_status := ''done''\<rparr>) (subtasks t0)\<rparr>"
    by simp
  have pf: "?P (?f t0)" "?P (?g (?f t0))" using p0 by simp_all
  note ob = update_first_twice_obs [where P = ?P and f = ?f and g = ?g, OF t0 pf, unfolded gf]
  let ?ts' = "update_first ?P ?g (update_first ?P ?f (tasks d))"
  have "tasksFile w' = Content (d\<lparr>tasks := ?ts'\<rparr>)"
    using uf(1) ef by simp
  with ob show "\<exists>ts'. tasksFile w' = Content (d\<lparr>tasks := ts'\<rparr>)
           \<and> find ?P ts'
               = Some (t0\<lparr>status := ''done'', updated_at := clock w (Suc (ticks w)),
                          subtasks := map (\<lambda>st. st\<lparr>st_status := ''done''\<rparr>) (subtasks t0)\<rparr>)
           \<and> (\<forall>h. h (t0\<lparr>status := ''done'', updated_at := clock w (Suc (ticks w)),
                          subtasks := map (\<lambda>st. st\<lparr>st_status := ''done''\<rparr>) (subtasks t0)\<rparr>) = h t0
                  \<longrightarrow> map h ts' = map h (tasks d))"
    by (intro exI [of _ ?ts']) blast
  from uf(2) ef show "tasksWritable w'" by simp
  from uf(3) ef show "contextWritable w' = contextWritable w" by simp
  from uf(4) ef show "clock w' = clock w" by simp
  have "history ?w2 = history w" by (simp add: history_def)
  with uf(5) ef show "history w' = history w
         \<or> (\<exists>e. history w' = history w @ [e] \<and> action e = ''update''
                 \<and> Num (taskId e) = parseInt tok
                 \<and> summary e = ?summ
                 \<and> details e = Some (''done'', ''done''))"
    by (auto simp: historyAction_def)
qed

lemma completeSubtask_ok:
  fixes tok :: jsstring
  defines "pid \<equiv> parseInt_opt (nth_opt (split_on (cu CHR ''.'') tok) 0)"
  assumes d: "tasksFile w = Content d"
    and wr: "tasksWritable w"
    and p: "find (\<lambda>t. Num (task_id t) = pid) (tasks d) = Some p"
    and st: "find (\<lambda>st. strict_eq_str (st_id st) tok) (subtasks p) = Some st"
    and c: "completeSubtask tok summ mid d w = (r, w')"
  defines "sts \<equiv> update_first (\<lambda>st. strict_eq_str (st_id st) tok)
                    (\<lambda>st. st\<lparr>st_status := ''done''\<rparr>) (subtasks p)"
  shows "success r"
    and "message r = (if allDone sts then SubtaskAndTaskMarkedDone tok pid else SubtaskMarkedDone tok)"
    and "\<exists>ts' u. tasksFile w' = Content (d\<lparr>tasks := ts'\<rparr>)
           \<and> find (\<lambda>t. Num (task_id t) = pid) ts'
               = Some (p\<lparr>subtasks := sts,
                         status := (if allDone sts then ''done'' else status p),
                         updated_at := u\<rparr>)
           \<and> (\<forall>h. h (p\<lparr>subtasks := sts,
                         status := (if allDone sts then ''done'' else status p),
                         updated_at := u\<rparr>) = h p
                  \<longrightarrow> map h ts' = map h (tasks d))"
    and "tasksWritable w'"
    and "contextWritable w' = contextWritable w"
    and "clock w' = clock w"
    and "\<exists>es. history w' = history w @ es
           \<and> list_all (\<lambda>e. action e = ''update'' \<and> Num (taskId e) = pid) es
           \<and> length es \<le> (if allDone sts then 2 else 1)"
proof -
  let ?P = "\<lambda>t. Num (task_id t) = pid"
  let ?F = "\<lambda>t. t\<lparr>subtasks := sts, status := (if allDone sts then ''done'' else status t),
                    updated_at := clock w (ticks w)\<rparr>"
  let ?d1 = "d\<lparr>tasks := update_first ?P ?F (tasks d)\<rparr>"
  let ?w2 = "w\<lparr>ticks := Suc (ticks w), tasksFile := Content ?d1\<rparr>"
  let ?s1 = "or_template summ (SubtaskCompleted tok (st_title st))"
  obtain b3 w3 where a: "addHistoryEntry pid ''update'' ?s1 None ?w2 = (b3, w3)"
    by (cases "addHistoryEntry pid ''update'' ?s1 None ?w2")
  note af = addHistoryEntry_frame [OF a]
  note ah = addHistoryEntry_history [OF a]
  have hw2: "history ?w2 = history w" by (simp add: history_def)
  from find_SomeD [OF p] have p0: "?P p" by simp
  then have pF: "?P (?F p)" by simp
  have f1: "find ?P (tasks ?d1) = Some (?F p)"
    using find_update_first [where P = ?P and f = ?F and x = p and xs = "tasks d"] p pF by simp
  have h1: "\<exists>es. history w3 = history w @ es
           \<and> list_all (\<lambda>e. action e = ''update'' \<and> Num (taskId e) = pid) es \<and> length es \<le> 1"
    using ah hw2 by (elim disjE exE) (auto intro: exI [of _ "[]"])
  have main: "(success r)
       \<and> (message r = (if allDone sts then SubtaskAndTaskMarkedDone tok pid else SubtaskMarkedDone tok))
       \<and> (\<exists>ts' u. tasksFile w' = Content (d\<lparr>tasks := ts'\<rparr>)
           \<and> find ?P ts'
               = Some (p\<lparr>subtasks := sts,
                         status := (if allDone sts then ''done'' else status p),
                         updated_at := u\<rparr>)
           \<and> (\<forall>h. h (p\<lparr>subtasks := sts,
                         status := (if allDone sts then ''done'' else status p),
                         updated_at := u\<rparr>) = h p
                  \<longrightarrow> map h ts' = map h (tasks d)))
       \<and> (tasksWritable w')
       \<and> (contextWritable w' = contextWritable w)
       \<and> (clock w' = clock w)
       \<and> (\<exists>es. history w' = history w @ es
           \<and> list_all (\<lambda>e. action e = ''update'' \<and> Num (taskId e) = pid) es
           \<and> length es \<le> (if allDone sts then 2 else 1))"
  proof (cases "allDone sts")
    case False
    from c d wr p st a False
    have e: "completionEnd tok summ mid True (SubtaskMarkedDone tok) w3 = (r, w')"
      by (simp add: completeSubtask_def now_def saveTasks_def Let_def pid_def sts_def)
    note ef = completionEnd_frame [OF e]
    from ef have g1: "success r" by simp
    from ef False have g2: "message r = (if allDone sts then SubtaskAndTaskMarkedDone tok pid else SubtaskMarkedDone tok)"
      by simp
    have tf: "tasksFile w' = Content ?d1" using ef af by simp
    have m: "\<forall>h. h (?F p) = h p \<longrightarrow> map h (update_first ?P ?F (tasks d)) = map h (tasks d)"
      using p update_first_map_same [where P = ?P and f = ?F and x = p and xs = "tasks d"]
      by blast
    have g3: "\<exists>ts' u. tasksFile w' = Content (d\<lparr>tasks := ts'\<rparr>)
           \<and> find ?P ts'
               = Some (p\<lparr>subtasks := sts,
                         status := (if allDone sts then ''done'' else status p),
                         updated_at := u\<rparr>)
           \<and> (\<forall>h. h (p\<lparr>subtasks := sts,
                         status := (if allDone sts then ''done'' else status p),
                         updated_at := u\<rparr>) = h p
                  \<longrightarrow> map h ts' = map h (tasks d))"
    proof (intro exI conjI)
      show "tasksFile w' = Content (d\<lparr>tasks := update_first ?P ?F (tasks d)\<rparr>)"
        using tf by simp
      show "find ?P (update_first ?P ?F (tasks d))
            = Some (p\<lparr>subtasks := sts, status := (if allDone sts then ''done'' else status p),
                      updated_at := clock w (ticks w)\<rparr>)"
        using f1 by simp
      show "\<forall>h. h (p\<lparr>subtasks := sts, status := (if allDone sts then ''done'' else status p),
                      updated_at := clock w (ticks w)\<rparr>) = h p
              \<longrightarrow> map h (update_first ?P ?F (tasks d)) = map h (tasks d)"
        by (rule m)
    qed
    from ef af wr have g4: "tasksWritable w'" by simp
    from ef af have g5: "contextWritable w' = contextWritable w" by simp
    from ef af have g6: "clock w' = clock w" by simp
    from h1 ef False have g7: "\<exists>es. history w' = history w @ es
           \<and> list_all (\<lambda>e. action e = ''update'' \<and> Num (taskId e) = pid) es
           \<and> length es \<le> (if allDone sts then 2 else 1)"
      by auto
    from g1 g2 g3 g4 g5 g6 g7 show ?thesis by blast
  next
    case True
    let ?s2 = "AllSubtasksCompleted (length sts)"
    let ?G = "\<lambda>t. t\<lparr>status := ''done'', updated_at := clock w3 (ticks w3)\<rparr>"
    obtain b4 w4 where u: "updateTaskStatus pid ''done'' ?s2 w3 = (b4, w4)"
      by (cases "updateTaskStatus pid ''done'' ?s2 w3")
    from c d wr p st a True u
    have e: "completionEnd tok summ mid True (SubtaskAndTaskMarkedDone tok pid) w4 = (r, w')"
      by (simp add: completeSubtask_def now_def saveTasks_def Let_def pid_def sts_def)
    note ef = completionEnd_frame [OF e]
    have "tasksFile w3 = Content ?d1" "tasksWritable w3" using af wr by simp_all
    note uf = updateTaskStatus_found [OF this f1 u]
    from ef have g1: "success r" by simp
    from ef True have g2: "message r = (if allDone sts then SubtaskAndTaskMarkedDone tok pid else SubtaskMarkedDone tok)"
      by simp
    have gf: "?G (?F p) = p\<lparr>subtasks := sts, status := (if allDone sts then ''done'' else status p),
                             updated_at := clock w3 (ticks w3)\<rparr>"
      using True by simp
    have pG: "?P (?G (?F p))" using p0 by simp
    note ob = update_first_twice_obs [where P = ?P and f = ?F and g = ?G, OF p pF pG, unfolded gf]
    let ?ts' = "update_first ?P ?G (update_first ?P ?F (tasks d))"
    have tf: "tasksFile w' = Content (d\<lparr>tasks := ?ts'\<rparr>)"
      using uf(1) ef by simp
    have g3: "\<exists>ts' u. tasksFile w' = Content (d\<lparr>tasks := ts'\<rparr>)
           \<and> find ?P ts'
               = Some (p\<lparr>subtasks := sts,
                         status := (if allDone sts then ''done'' else status p),
                         updated_at := u\<rparr>)
           \<and> (\<forall>h. h (p\<lparr>subtasks := sts,
                         status := (if allDone sts then ''done'' else status p),
                         updated_at := u\<rparr>) = h p
                  \<longrightarrow> map h ts' = map h (tasks d))"
    proof (intro exI conjI)
      show "tasksFile w' = Content (d\<lparr>tasks := ?ts'\<rparr>)"
        by (rule tf)
      show "find ?P ?ts'
            = Some (p\<lparr>subtasks := sts, status := (if allDone sts then ''done'' else status p),
                      updated_at := clock w3 (ticks w3)\<rparr>)"
        by (rule ob(1))
      show "\<forall>h. h (p\<lparr>subtasks := sts, status := (if allDone sts then ''done'' else status p),
                      updated_at := clock w3 (ticks w3)\<rparr>) = h p
              \<longrightarrow> map h ?ts' = map h (tasks d)"
        using ob(2) by (intro allI impI)
    qed
    from ef uf(2) have g4: "tasksWritable w'" by simp
    from ef uf(3) af have g5: "contextWritable w' = contextWritable w" by simp
    from ef uf(4) af have g6: "clock w' = clock w" by simp
    from h1 obtain es where es: "history w3 = history w @ es"
      "list_all (\<lambda>e. action e = ''update'' \<and> Num (taskId e) = pid) es" "length es \<le> 1"
      by blast
    from uf(5) True have "history w4 = history w3
         \<or> (\<exists>e. history w4 = history w3 @ [e] \<and> action e = ''update'' \<and> Num (taskId e) = pid)"
      by (auto simp: historyAction_def)
    then have "\<exists>es'. history w4 = history w @ es'
           \<and> list_all (\<lambda>e. action e = ''update'' \<and> Num (taskId e) = pid) es' \<and> length es' \<le> 2"
    proof (elim disjE exE conjE)
      assume "history w4 = history w3"
      with es show ?thesis by (intro exI [of _ es]) simp
    next
      fix e
      assume "history w4 = history w3 @ [e]" "action e = ''update''" "Num (taskId e) = pid"
      with es show ?thesis by (intro exI [of _ "es @ [e]"]) simp
    qed
    with ef True have g7: "\<exists>es. history w' = history w @ es
           \<and> list_all (\<lambda>e. action e = ''update'' \<and> Num (taskId e) = pid) es
           \<and> length es \<le> (if allDone sts then 2 else 1)"
      by auto
    from g1 g2 g3 g4 g5 g6 g7 show ?thesis by blast
  qed
  from main show "success r"
    and "message r = (if allDone sts then SubtaskAndTaskMarkedDone tok pid else SubtaskMarkedDone tok)"
    and "\<exists>ts' u. tasksFile w' = Content (d\<lparr>tasks := ts'\<rparr>)
           \<and> find ?P ts'
               = Some (p\<lparr>subtasks := sts,
                         status := (if allDone sts then ''done'' else status p),
                         updated_at := u\<rparr>)
           \<and> (\<forall>h. h (p\<lparr>subtasks := sts,
                         status := (if allDone sts then ''done'' else status p),
                         updated_at := u\<rparr>) = h p
                  \<longrightarrow> map h ts' = map h (tasks d))"
    and "tasksWritable w'"
    and "contextWritable w' = contextWritable w"
    and "clock w' = clock w"
    and "\<exists>es. history w' = history w @ es
           \<and> list_all (\<lambda>e. action e = ''update'' \<and> Num (taskId e) = pid) es
           \<and> length es \<le> (if allDone sts then 2 else 1)"
    by blast+
qed

lemma complete_plain:
  assumes "tasksFile w = Content d" and "\<not> includes_char (cu CHR ''.'') tok"
  shows "completeTaskWithContextUpdate tok summ w =
           (Returned (fst (completeMainTask tok summ (parseInt tok) d w)),
            snd (completeMainTask tok summ (parseInt tok) d w))"
  using assms
  by (simp add: completeTaskWithContextUpdate_def loadTasks_def Let_def split: prod.splits)

lemma complete_dotted:
  assumes "tasksFile w = Content d" and "includes_char (cu CHR ''.'') tok"
  shows "completeTaskWithContextUpdate tok summ w =
           (Returned (fst (completeSubtask tok summ (parseInt_opt (nth_opt (split_on (cu CHR ''.'') tok) 0)) d w)),
            snd (completeSubtask tok summ (parseInt_opt (nth_opt (split_on (cu CHR ''.'') tok) 0)) d w))"
  using assms
  by (simp add: completeTaskWithContextUpdate_def loadTasks_def Let_def split: prod.splits)

lemma completeMainTask_success:
  assumes "tasksFile w = Content d"
    and "completeMainTask tok summ mid d w = (r, w')"
    and "success r"
  shows "tasksWritable w \<and> (\<exists>t0. find (\<lambda>t. Num (task_id t) = parseInt tok) (tasks d) = Some t0)"
proof (cases "find (\<lambda>t. Num (task_id t) = parseInt tok) (tasks d)")
  case None
  with assms show ?thesis by (auto simp: completeMainTask_def Let_def)
next
  case (Some t0)
  show ?thesis
  proof (cases "tasksWritable w")
    case True
    with Some show ?thesis by simp
  next
    case False
    with assms Some show ?thesis
      by (auto simp: completeMainTask_def Let_def now_def saveTasks_def completionEnd_def)
  qed
qed

lemma completionEnd_healthy:
  assumes "contextWritable w" and "contextFile w \<noteq> Unreadable"
    and "completionEnd tok summ mid True msg w = (r, w')"
  shows "storedActiveTask w' = None"
proof -
  obtain u w1 where
    u: "updateContextAfterTaskCompletion mid (or_template summ (TaskFinished tok)) w = (u, w1)"
    by (cases "updateContextAfterTaskCompletion mid (or_template summ (TaskFinished tok)) w")
  with assms(3) have "w' = w1" by (auto simp: completionEnd_def)
  with updateContextAfter_healthy(1) [OF assms(1,2) u] show ?thesis by simp
qed

lemma completeMainTask_healthy:
  assumes cw: "contextWritable w" and cu: "contextFile w \<noteq> Unreadable"
    and d: "tasksFile w = Content d" and wr: "tasksWritable w"
    and t0: "find (\<lambda>t. Num (task_id t) = parseInt tok) (tasks d) = Some t0"
    and c: "completeMainTask tok summ mid d w = (r, w')"
  shows "\<exists>e. history w' = history w @ [e] \<and> action e = ''update'' \<and> taskId e = task_id t0
              \<and> details e = Some (''done'', ''done'')"
    and "storedActiveTask w' = None"
proof -
  let ?P = "\<lambda>t. Num (task_id t) = parseInt tok"
  let ?f = "\<lambda>t. t\<lparr>status := ''done'', updated_at := clock w (ticks w),
                    subtasks := (if length (subtasks t) > 0
                                 then map (\<lambda>st. st\<lparr>st_status := ''done''\<rparr>) (subtasks t)
                                 else subtasks t)\<rparr>"
  let ?d1 = "d\<lparr>tasks := update_first ?P ?f (tasks d)\<rparr>"
  let ?w2 = "w\<lparr>ticks := Suc (ticks w), tasksFile := Content ?d1\<rparr>"
  let ?summ = "or_template summ (TaskCompleted (title t0) (length (subtasks t0)))"
  obtain b w3 where u: "updateTaskStatus (parseInt tok) ''done'' ?summ ?w2 = (b, w3)"
    by (cases "updateTaskStatus (parseInt tok) ''done'' ?summ ?w2")
  from c d wr t0 u have e: "completionEnd tok summ mid True (TaskMarkedDone (parseInt tok) (title t0)) w3 = (r, w')"
    by (simp add: completeMainTask_def now_def saveTasks_def Let_def)
  note ef = completionEnd_frame [OF e]
  from find_SomeD [OF t0] have p0: "?P t0" by simp
  then have f1: "find ?P (tasks ?d1) = Some (?f t0)"
    using find_update_first [of ?P ?f t0 "tasks d"] t0 by simp
  have 1: "contextWritable ?w2" "contextFile ?w2 \<noteq> Unreadable" "tasksFile ?w2 = Content ?d1"
    "tasksWritable ?w2"
    using cw cu wr by simp_all
  note uh = updateTaskStatus_healthy [OF 1 f1 u]
  note uf = updateTaskStatus_found [OF 1(3,4) f1 u]
  have hw: "history ?w2 = history w" by (simp add: history_def)
  from uh(1) hw ef show "\<exists>e. history w' = history w @ [e] \<and> action e = ''update''
              \<and> taskId e = task_id t0 \<and> details e = Some (''done'', ''done'')"
    by (auto simp: historyAction_def)
  have "contextWritable w3" using uf(3) cw by simp
  from completionEnd_healthy [OF this uh(2) e] show "storedActiveTask w' = None" .
qed

lemma completeSubtask_healthy:
  fixes tok :: jsstring
  defines "pid \<equiv> parseInt_opt (nth_opt (split_on (cu CHR ''.'') tok) 0)"
  assumes cw: "contextWritable w" and cu: "contextFile w \<noteq> Unreadable"
    and d: "tasksFile w = Content d"
    and wr: "tasksWritable w"
    and p: "find (\<lambda>t. Num (task_id t) = pid) (tasks d) = Some p"
    and st: "find (\<lambda>st. strict_eq_str (st_id st) tok) (subtasks p) = Some st"
    and c: "completeSubtask tok summ mid d w = (r, w')"
  defines "sts \<equiv> update_first (\<lambda>st. strict_eq_str (st_id st) tok)
                    (\<lambda>st. st\<lparr>st_status := ''done''\<rparr>) (subtasks p)"
  shows "\<exists>es. history w' = history w @ es
           \<and> map action es = (if allDone sts then [''update'', ''update''] else [''update''])
           \<and> list_all (\<lambda>e. taskId e = task_id p) es"
    and "storedActiveTask w' = None"
proof -
  let ?P = "\<lambda>t. Num (task_id t) = pid"
  let ?F = "\<lambda>t. t\<lparr>subtasks := sts, status := (if allDone sts then ''done'' else status t),
                    updated_at := clock w (ticks w)\<rparr>"
  let ?d1 = "d\<lparr>tasks := update_first ?P ?F (tasks d)\<rparr>"
  let ?w2 = "w\<lparr>ticks := Suc (ticks w), tasksFile := Content ?d1\<rparr>"
  let ?s1 = "or_template summ (SubtaskCompleted tok (st_title st))"
  obtain b3 w3 where a: "addHistoryEntry pid ''update'' ?s1 None ?w2 = (b3, w3)"
    by (cases "addHistoryEntry pid ''update'' ?s1 None ?w2")
  from find_SomeD [OF p] have p0: "?P p" by simp
  then have pF: "?P (?F p)" by simp
  have f1: "find ?P (tasks ?d1) = Some (?F p)"
    using find_update_first [where P = ?P and f = ?F and x = p and xs = "tasks d"] p pF by simp
  have 1: "contextWritable ?w2" "contextFile ?w2 \<noteq> Unreadable" "tasksFile ?w2 = Content ?d1"
    using cw cu by simp_all
  note af = addHistoryEntry_frame [OF a]
  note ah = addHistoryEntry_healthy [OF 1 f1 a]
  have hw2: "history ?w2 = history w" by (simp add: history_def)
  from ah(1) hw2 obtain e1 where e1: "history w3 = history w @ [e1]" "action e1 = ''update''"
    "taskId e1 = task_id p"
    by auto
  have cw3: "contextWritable w3" using af cw by simp
  have main: "(\<exists>es. history w' = history w @ es
           \<and> map action es = (if allDone sts then [''update'', ''update''] else [''update''])
           \<and> list_all (\<lambda>e. taskId e = task_id p) es) \<and> storedActiveTask w' = None"
  proof (cases "allDone sts")
    case False
    from c d wr p st a False
    have e: "completionEnd tok summ mid True (SubtaskMarkedDone tok) w3 = (r, w')"
      by (simp add: completeSubtask_def now_def saveTasks_def Let_def pid_def sts_def)
    note ef = completionEnd_frame [OF e]
    from completionEnd_healthy [OF cw3 ah(2) e] have "storedActiveTask w' = None" .
    moreover from e1 ef False have "history w' = history w @ [e1]
           \<and> map action [e1] = (if allDone sts then [''update'', ''update''] else [''update''])
           \<and> list_all (\<lambda>e. taskId e = task_id p) [e1]"
      by simp
    ultimately show ?thesis by blast
  next
    case True
    let ?s2 = "AllSubtasksCompleted (length sts)"
    obtain b4 w4 where u: "updateTaskStatus pid ''done'' ?s2 w3 = (b4, w4)"
      by (cases "updateTaskStatus pid ''done'' ?s2 w3")
    from c d wr p st a True u
    have e: "completionEnd tok summ mid True (SubtaskAndTaskMarkedDone tok pid) w4 = (r, w')"
      by (simp add: completeSubtask_def now_def saveTasks_def Let_def pid_def sts_def)
    note ef = completionEnd_frame [OF e]
    have 3: "tasksFile w3 = Content ?d1" "tasksWritable w3" using af wr by simp_all
    note uh = updateTaskStatus_healthy [OF cw3 ah(2) 3 f1 u]
    note uf = updateTaskStatus_found [OF 3 f1 u]
    from uh(1) True obtain e2 where e2: "history w4 = history w3 @ [e2]" "action e2 = ''update''"
      "taskId e2 = task_id p"
      by (auto simp: historyAction_def)
    have "contextWritable w4" using uf(3) cw3 by simp
    from completionEnd_healthy [OF this uh(2) e] have "storedActiveTask w' = None" .
    moreover from e1 e2 ef True have "history w' = history w @ [e1, e2]
           \<and> map action [e1, e2] = (if allDone sts then [''update'', ''update''] else [''update''])
           \<and> list_all (\<lambda>e. taskId e = task_id p) [e1, e2]"
      by simp
    ultimately show ?thesis by blast
  qed
  from main show "\<exists>es. history w' = history w @ es
           \<and> map action es = (if allDone sts then [''update'', ''update''] else [''update''])
           \<and> list_all (\<lambda>e. taskId e = task_id p) es"
    and "storedActiveTask w' = None"
    by blast+
qed

lemma complete_success_plain:
  assumes nd: "\<not> includes_char (cu CHR ''.'') tok"
    and c: "completeTaskWithContextUpdate tok summ w = (Returned r, w')"
    and s: "success r"
  obtains d t0 where "tasksFile w = Content d" and "tasksWritable w"
    and "find (\<lambda>t. Num (task_id t) = parseInt tok) (tasks d) = Some t0"
    and "completeMainTask tok summ (parseInt tok) d w = (r, w')"
proof -
  from c obtain d where d: "tasksFile w = Content d"
    by (cases "tasksFile w") (simp_all add: completeTaskWithContextUpdate_def loadTasks_def)
  from complete_plain [OF d nd, of summ] c
  have m: "completeMainTask tok summ (parseInt tok) d w = (r, w')"
    by (cases "completeMainTask tok summ (parseInt tok) d w") simp
  from completeMainTask_success [OF d m s] obtain t0 where
    "tasksWritable w" "find (\<lambda>t. Num (task_id t) = parseInt tok) (tasks d) = Some t0"
    by blast
  with d m that show ?thesis by blast
qed

subsection \<open>Facts about the example data\<close>

lemma first_part_22: "parseInt_opt (nth_opt (split_on (cu CHR ''.'') (str ''2.2'')) 0) = Num 2"
  by (simp add: parseInt_opt_def parseInt_def is_ws_def is_digit_of_def digit_val_def
      digits_value_def Let_def str_simps cu_def to_number_small)

lemma exWorld_simps:
  "tasksFile (exWorld ts) = Content \<lparr>project = ''P'', version = ''1.0.0'', tasks = ts\<rparr>"
  "tasksWritable (exWorld ts)" "contextWritable (exWorld ts)"
  "contextFile (exWorld ts) \<noteq> Unreadable" "history (exWorld ts) = []"
  by (simp_all add: exWorld_def history_def)

section \<open>Claims\<close>

text \<open>
  C3, as the code has it. \<open>getNextTaskId\<close> returns 1 on the empty list. On a list
  that the engine can spread into one call and whose ids are safe integers (of absolute
  value below \<open>2^53\<close>) it returns the maximum of the existing ids plus 1, which is
  strictly greater than every existing id.
\<close>

theorem C3_getNextTaskId:
  assumes "length ts \<le> maxArguments"
    and "\<forall>t \<in> set ts. \<bar>task_id t\<bar> < 2 ^ 53"
  shows "getNextTaskId maxArguments [] = Inr (Num 1)
         \<and> (ts \<noteq> [] \<longrightarrow> getNextTaskId maxArguments ts = Inr (Num (Max (task_id ` set ts) + 1)))
         \<and> (\<forall>t \<in> set ts. \<exists>n. getNextTaskId maxArguments ts = Inr (Num n) \<and> task_id t < n)"
proof -
  have e: "getNextTaskId maxArguments [] = Inr (Num 1)"
    by (simp add: getNextTaskId_def)
  have m: "getNextTaskId maxArguments ts = Inr (Num (Max (task_id ` set ts) + 1))" if "ts \<noteq> []"
  proof -
    from that obtain t us where ts: "ts = t # us"
      by (cases ts) auto
    have "Max (task_id ` set ts) \<in> task_id ` set ts"
      using that by (intro Max_in) simp_all
    then obtain u where "u \<in> set ts" "Max (task_id ` set ts) = task_id u"
      by auto
    with assms(2) have "\<bar>Max (task_id ` set ts)\<bar> < 2 ^ 53"
      by simp
    then have "\<bar>Max (task_id ` set ts) + 1\<bar> \<le> 2 ^ 53"
      by simp
    then have "to_number (Max (task_id ` set ts) + 1) = Num (Max (task_id ` set ts) + 1)"
      by (rule to_number_safe)
    moreover have "Math_max (task_id t) (map task_id us) = Max (task_id ` set ts)"
      by (simp add: ts Math_max_eq)
    ultimately show ?thesis
      using assms(1) by (simp add: ts getNextTaskId_def)
  qed
  have g: "\<exists>n. getNextTaskId maxArguments ts = Inr (Num n) \<and> task_id t < n" if "t \<in> set ts" for t
  proof -
    from that have ne: "ts \<noteq> []" by auto
    have "task_id t \<le> Max (task_id ` set ts)"
      using that by simp
    then have "task_id t < Max (task_id ` set ts) + 1"
      by simp
    with m [OF ne] show ?thesis by blast
  qed
  from e m g show ?thesis by blast
qed

theorem C3_getNextTaskId_witness:
  "getNextTaskId 1000 [] = Inr (Num 1)
   \<and> getNextTaskId 1000 [exTask 5 ''pending'' 2 [], exTask 7 ''done'' 1 [], exTask 2 ''done'' 1 []]
       = Inr (Num 8)
   \<and> task_id (exTask 7 ''done'' 1 []) < 8"
  using C3_getNextTaskId
    [of "[exTask 5 ''pending'' 2 [], exTask 7 ''done'' 1 [], exTask 2 ''done'' 1 []]" 1000]
  by (simp add: exTask_def)

text \<open>
  The claim as stated fails beyond the safe integers: for the one id
  \<open>2^53 = 9007199254740992\<close> the sum \<open>2^53 + 1\<close> is not a double and is rounded to
  \<open>2^53\<close>, so the id returned is the existing id. (A list longer than the engine's
  limit of arguments throws instead: \<open>getNextTaskId_RangeError\<close>.)
\<close>

theorem C3_counterexample:
  "getNextTaskId 1000 [exTask 9007199254740992 ''pending'' 1 []]
     = Inr (Num (task_id (exTask 9007199254740992 ''pending'' 1 [])))"
  by (simp add: getNextTaskId_def exTask_def to_number_above_2_53)

text \<open>
  C10. For a task whose subtask ids are strings (the scheme \<open>"<parentId>.<ordinal>"\<close> the
  generators write), the completion query of chat.js on a dotted id \<open>N.M\<close> of an
  existing task \<open>N\<close> answers that the subtask is not found, whether or not a subtask
  with that id exists: the ordinal is parsed to a number and compared by strict equality
  with the string ids.
\<close>

theorem C10_checkTaskCompletion_dotted:
  assumes "tasksFile w = Content d"
    and "includes_char (cu CHR ''.'') tok"
    and "find (\<lambda>t. Num (task_id t) = parseInt_opt (nth_opt (split_on (cu CHR ''.'') tok) 0)) (tasks d)
         = Some t"
    and "\<forall>st \<in> set (subtasks t). \<exists>s. st_id st = IdStr s"
  shows "checkTaskCompletion tok w = Returned (CheckSubtaskNotFound tok)"
  using assms
  by (simp add: checkTaskCompletion_def loadTasks_def split_on_dotted
      find_strict_eq_num_strings Let_def)

theorem C10_checkTaskCompletion_dotted_witness:
  "find (\<lambda>st. st_id st = IdStr (str ''2.2''))
     [exSubtask ''2.1'' ''done'', exSubtask ''2.2'' ''pending''] = Some (exSubtask ''2.2'' ''pending'')
   \<and> checkTaskCompletion (str ''2.2'')
        (exWorld [exTask 2 ''pending'' 1 [exSubtask ''2.1'' ''done'', exSubtask ''2.2'' ''pending'']])
      = Returned (CheckSubtaskNotFound (str ''2.2''))"
  using C10_checkTaskCompletion_dotted
    [of "exWorld [exTask 2 ''pending'' 1 [exSubtask ''2.1'' ''done'', exSubtask ''2.2'' ''pending'']]"
        "\<lparr>project = ''P'', version = ''1.0.0'',
          tasks = [exTask 2 ''pending'' 1 [exSubtask ''2.1'' ''done'', exSubtask ''2.2'' ''pending'']]\<rparr>"
        "(str ''2.2'')"
        "exTask 2 ''pending'' 1 [exSubtask ''2.1'' ''done'', exSubtask ''2.2'' ''pending'']"]
  by (simp add: exWorld_def exTask_def exSubtask_def includes_char_def parseInt_opt_def
      parseInt_def is_ws_def is_digit_of_def digit_val_def digits_value_def Let_def
      str_simps cu_def to_number_small)

text \<open>
  C7. A start command given an id token that \<^verbatim>\<open>parseInt\<close> reads as the id of no task
  of the store fails with its not-found result and returns the world as it was: neither
  file is written. The ids of the store are numbers as \<^verbatim>\<open>JSON.parse\<close> gives them.
  This holds for \<open>startTaskExecution\<close> of complete.js and for \<open>startNextTask\<close> of
  the next-task script.
\<close>

theorem C7_start_unknown_id_unchanged:
  assumes "tasksFile w = Content d"
    and "\<forall>t \<in> set (tasks d). js_integer (task_id t)"
    and "s \<noteq> []"
    and "\<forall>t \<in> set (tasks d). Num (task_id t) \<noteq> parseInt s"
  shows "startTaskExecution (Some s) w = (Returned (ExecNotFound (Some s)), w)
         \<and> startNextTask False (Some s) w = (Returned (NotFoundOrNotPending (Some s)), w)"
  using start_unknown_id [OF assms(1,3,4)] by simp

theorem C7_start_unknown_id_unchanged_witness:
  "startTaskExecution (Some (str ''9'')) (exWorld [exTask 1 ''pending'' 1 [], exTask 2 ''done'' 2 []])
     = (Returned (ExecNotFound (Some (str ''9''))), exWorld [exTask 1 ''pending'' 1 [], exTask 2 ''done'' 2 []])
   \<and> startNextTask False (Some (str ''9'')) (exWorld [exTask 1 ''pending'' 1 [], exTask 2 ''done'' 2 []])
     = (Returned (NotFoundOrNotPending (Some (str ''9''))),
        exWorld [exTask 1 ''pending'' 1 [], exTask 2 ''done'' 2 []])"
  using C7_start_unknown_id_unchanged
    [of "exWorld [exTask 1 ''pending'' 1 [], exTask 2 ''done'' 2 []]"
        "\<lparr>project = ''P'', version = ''1.0.0'',
          tasks = [exTask 1 ''pending'' 1 [], exTask 2 ''done'' 2 []]\<rparr>"
        "(str ''9'')"]
  by (simp add: exWorld_def exTask_def parseInt_def is_ws_def is_digit_of_def digit_val_def
      digits_value_def Let_def str_simps cu_def js_integer_def to_number_small)

text \<open>
  C8, as the code has it. The complete command has no error of its own for a malformed
  id: a token whose part before the first dot does not start with an integer (after
  white space and a sign, as \<^verbatim>\<open>parseInt\<close> reads it) is parsed to \<^verbatim>\<open>NaN\<close>, no task
  has that id, and the command fails with the same \<open>TaskNotFound\<close> result an unknown
  id gives (the id printed as \<^verbatim>\<open>NaN\<close>), writing nothing.
\<close>

theorem C8_malformed_id_is_TaskNotFound:
  assumes "tasksFile w = Content d"
    and "parseInt (takeWhile (\<lambda>x. x \<noteq> cu CHR ''.'') tok) = NaN"
  shows "completeTaskWithContextUpdate tok summ w =
           (Returned \<lparr>success = False, message = TaskNotFound NaN, nextTask = None,
                      copilotContext = None\<rparr>, w)"
  using complete_nan_id [OF assms] .

theorem C8_malformed_id_is_TaskNotFound_witness:
  "completeTaskWithContextUpdate (str ''x1.2'') (Some ''text'') (exWorld [exTask 1 ''pending'' 1 []]) =
     (Returned \<lparr>success = False, message = TaskNotFound NaN, nextTask = None,
                copilotContext = None\<rparr>, exWorld [exTask 1 ''pending'' 1 []])"
  using C8_malformed_id_is_TaskNotFound
    [of "exWorld [exTask 1 ''pending'' 1 []]"
        "\<lparr>project = ''P'', version = ''1.0.0'', tasks = [exTask 1 ''pending'' 1 []]\<rparr>"
        "(str ''x1.2'')" "Some ''text''"]
  by (simp add: exWorld_def parseInt_def is_ws_def is_digit_of_def digit_val_def Let_def
      str_simps cu_def)

text \<open>
  The claim as stated fails: on the token \<open>abc\<close> the message is \<open>TaskNotFound\<close>, the
  message of an unknown id such as \<open>7\<close>.
\<close>

theorem C8_counterexample:
  "message_of (fst (completeTaskWithContextUpdate (str ''abc'') None (exWorld [exTask 1 ''pending'' 1 []])))
     = Some (TaskNotFound NaN)
   \<and> message_of (fst (completeTaskWithContextUpdate (str ''7'') None (exWorld [exTask 1 ''pending'' 1 []])))
     = Some (TaskNotFound (Num 7))"
  by (simp add: message_of_def completeTaskWithContextUpdate_def loadTasks_def
      completeMainTask_def exWorld_def exTask_def includes_char_def parseInt_def is_ws_def
      is_digit_of_def digit_val_def digits_value_def Let_def str_simps cu_def to_number_small)

text \<open>
  C4, at two inputs of the claim. The store holds task 1 (done), task 2 (pending) and
  task 3 (in progress). \<open>startNextTask\<close> of the next-task script refuses to start
  task 1 (not pending) and task 2 (\<open>AlreadyActive\<close>), as claimed, and does so in
  general (\<open>start_guards\<close>). \<open>startTaskExecution\<close> of complete.js makes neither
  check: it starts task 1, and it starts task 2, and the store then holds two tasks in
  progress.
\<close>

theorem C4_startTaskExecution_unguarded:
  "map status (storedTasks
     (exWorld [exTask 1 ''done'' 1 [], exTask 2 ''pending'' 1 [], exTask 3 ''in-progress'' 2 []]))
     = [''done'', ''pending'', ''in-progress'']
   \<and> fst (startTaskExecution (Some (str ''1''))
       (exWorld [exTask 1 ''done'' 1 [], exTask 2 ''pending'' 1 [], exTask 3 ''in-progress'' 2 []]))
     = Returned (ExecStarted ((exTask 1 ''in-progress'' 1 [])\<lparr>updated_at := 100\<rparr>))
   \<and> map status (storedTasks (snd (startTaskExecution (Some (str ''1''))
       (exWorld [exTask 1 ''done'' 1 [], exTask 2 ''pending'' 1 [], exTask 3 ''in-progress'' 2 []]))))
     = [''in-progress'', ''pending'', ''in-progress'']
   \<and> fst (startTaskExecution (Some (str ''2''))
       (exWorld [exTask 1 ''done'' 1 [], exTask 2 ''pending'' 1 [], exTask 3 ''in-progress'' 2 []]))
     = Returned (ExecStarted ((exTask 2 ''in-progress'' 1 [])\<lparr>updated_at := 100\<rparr>))
   \<and> map status (storedTasks (snd (startTaskExecution (Some (str ''2''))
       (exWorld [exTask 1 ''done'' 1 [], exTask 2 ''pending'' 1 [], exTask 3 ''in-progress'' 2 []]))))
     = [''done'', ''in-progress'', ''in-progress'']
   \<and> startNextTask False (Some (str ''1''))
       (exWorld [exTask 1 ''done'' 1 [], exTask 2 ''pending'' 1 [], exTask 3 ''in-progress'' 2 []])
     = (Returned (NotFoundOrNotPending (Some (str ''1''))),
        exWorld [exTask 1 ''done'' 1 [], exTask 2 ''pending'' 1 [], exTask 3 ''in-progress'' 2 []])
   \<and> startNextTask False (Some (str ''2''))
       (exWorld [exTask 1 ''done'' 1 [], exTask 2 ''pending'' 1 [], exTask 3 ''in-progress'' 2 []])
     = (Returned (AlreadyActive (exTask 3 ''in-progress'' 2 [])),
        exWorld [exTask 1 ''done'' 1 [], exTask 2 ''pending'' 1 [], exTask 3 ''in-progress'' 2 []])"
proof -
  let ?ts = "[exTask 1 ''done'' 1 [], exTask 2 ''pending'' 1 [], exTask 3 ''in-progress'' 2 []]"
  let ?D = "\<lparr>project = ''P'', version = ''1.0.0'', tasks = ?ts\<rparr>"
  note d = exWorld_simps(1) [of ?ts] and wr = exWorld_simps(2) [of ?ts]
  have f1: "find (\<lambda>t. Num (task_id t) = parseInt (str ''1'')) (tasks ?D) = Some (exTask 1 ''done'' 1 [])"
    and f2: "find (\<lambda>t. Num (task_id t) = parseInt (str ''2'')) (tasks ?D) = Some (exTask 2 ''pending'' 1 [])"
    by (simp_all add: parseInt_1 parseInt_2 exTask_def)
  have 0: "map status (storedTasks (exWorld ?ts)) = [''done'', ''pending'', ''in-progress'']"
    by (simp add: storedTasks_def exWorld_def exTask_def)
  have 1: "fst (startTaskExecution (Some (str ''1'')) (exWorld ?ts))
           = Returned (ExecStarted ((exTask 1 ''in-progress'' 1 [])\<lparr>updated_at := 100\<rparr>))"
    using startTaskExecution_any [OF d _ wr f1] by (simp add: exWorld_def exTask_def)
  have 2: "fst (startTaskExecution (Some (str ''2'')) (exWorld ?ts))
           = Returned (ExecStarted ((exTask 2 ''in-progress'' 1 [])\<lparr>updated_at := 100\<rparr>))"
    using startTaskExecution_any [OF d _ wr f2] by (simp add: exWorld_def exTask_def)
  have 3: "map status (storedTasks (snd (startTaskExecution (Some (str ''1'')) (exWorld ?ts))))
           = [''in-progress'', ''pending'', ''in-progress'']"
    using startTaskExecution_store [OF d _ wr f1]
    by (auto simp: storedTasks_def parseInt_1 exTask_def)
  have 4: "map status (storedTasks (snd (startTaskExecution (Some (str ''2'')) (exWorld ?ts))))
           = [''done'', ''in-progress'', ''in-progress'']"
    using startTaskExecution_store [OF d _ wr f2]
    by (auto simp: storedTasks_def parseInt_2 exTask_def)
  have 5: "startNextTask False (Some (str ''1'')) (exWorld ?ts)
           = (Returned (NotFoundOrNotPending (Some (str ''1''))), exWorld ?ts)"
    by (rule startNextTask_refuses [OF d]) (simp_all add: parseInt_1 exTask_def)
  have 6: "startNextTask False (Some (str ''2'')) (exWorld ?ts)
           = (Returned (AlreadyActive (exTask 3 ''in-progress'' 2 [])), exWorld ?ts)"
    by (rule startNextTask_active [OF d]) (simp_all add: parseInt_2 exTask_def)
  from 0 1 2 3 4 5 6 show ?thesis by simp
qed

text \<open>
  C2, at the claim's own input. Over pending tasks with the priorities 3, 1, 2, 1 the
  \<open>getNextTask\<close> of context-tracker.js returns the first task of priority 1, as
  claimed (and does so in general: \<open>nextPending_None\<close>, \<open>nextPending_Some\<close>). The
  \<open>getNextTask\<close> of the next-task script returns the task of priority 3: its
  comparator looks the numeric priority up in a table keyed by \<open>high\<close>, \<open>medium\<close>
  and \<open>low\<close>, is \<^verbatim>\<open>NaN\<close> for every pair, and the sort leaves the list as it was
  (\<open>nextPending_script_first\<close>).
\<close>

theorem C2_getNextTask_script_ignores_priority:
  "getNextTask_script
     (exWorld [exTask 1 ''pending'' 3 [], exTask 2 ''pending'' 1 [], exTask 3 ''pending'' 2 [],
               exTask 4 ''pending'' 1 []])
     = Returned (Some (exTask 1 ''pending'' 3 []))
   \<and> getNextTask_tracker
     (exWorld [exTask 1 ''pending'' 3 [], exTask 2 ''pending'' 1 [], exTask 3 ''pending'' 2 [],
               exTask 4 ''pending'' 1 []])
     = Some (exTask 2 ''pending'' 1 [])"
  by (simp add: getNextTask_script_def loadTasks_def nextPending_script_first
      getNextTask_tracker_def loadTasks_tracker_def nextPending_def js_sort_def byPriority_def
      sortCompare_def exWorld_def exTask_def)

text \<open>
  C9. Completing a task a second time, after a first completion that succeeded: the
  second call succeeds, the task is still done, the task list is what it was but for the
  task's \<open>updated_at\<close>, and the history grows by at most one entry, an entry of this
  task written by the second call; no earlier entry is repeated or lost.
\<close>

theorem C9_completeTask_idempotent:
  assumes nd: "\<not> includes_char (cu CHR ''.'') tok"
    and c1: "completeTaskWithContextUpdate tok s1 w = (Returned r1, w1)"
    and ok1: "success r1"
    and c2: "completeTaskWithContextUpdate tok s2 w1 = (o2, w2)"
  shows "\<exists>r2 t1 t2. o2 = Returned r2 \<and> success r2
           \<and> storedTask (parseInt tok) w1 = Some t1 \<and> status t1 = ''done''
           \<and> storedTask (parseInt tok) w2 = Some t2 \<and> t2 = t1\<lparr>updated_at := updated_at t2\<rparr>
           \<and> map (\<lambda>t. t\<lparr>updated_at := 0\<rparr>) (storedTasks w2)
               = map (\<lambda>t. t\<lparr>updated_at := 0\<rparr>) (storedTasks w1)
           \<and> (\<exists>es. history w2 = history w1 @ es \<and> length es \<le> 1
                  \<and> list_all (\<lambda>e. Num (taskId e) = parseInt tok \<and> action e = ''update'') es)"
proof -
  let ?P = "\<lambda>t. Num (task_id t) = parseInt tok"
  let ?done = "map (\<lambda>st. st\<lparr>st_status := ''done''\<rparr>)"
  from complete_success_plain [OF nd c1 ok1] obtain d t0 where
    d: "tasksFile w = Content d" and wr: "tasksWritable w"
    and t0: "find ?P (tasks d) = Some t0"
    and m1: "completeMainTask tok s1 (parseInt tok) d w = (r1, w1)"
    by blast
  let ?t1 = "t0\<lparr>status := ''done'', updated_at := clock w (Suc (ticks w)),
                 subtasks := ?done (subtasks t0)\<rparr>"
  from completeMainTask_ok(3) [OF d wr t0 m1] obtain ts1 where
    f1: "tasksFile w1 = Content (d\<lparr>tasks := ts1\<rparr>)" and t1: "find ?P ts1 = Some ?t1"
    by blast
  have wr1: "tasksWritable w1" by (rule completeMainTask_ok(4) [OF d wr t0 m1])
  let ?d1 = "d\<lparr>tasks := ts1\<rparr>"
  have t1': "find ?P (tasks ?d1) = Some ?t1" using t1 by simp
  obtain r2 where m2: "completeMainTask tok s2 (parseInt tok) ?d1 w1 = (r2, w2)" and o2: "o2 = Returned r2"
    using complete_plain [OF f1 nd, of s2] c2
    by (cases "completeMainTask tok s2 (parseInt tok) ?d1 w1") simp
  note ok = completeMainTask_ok [OF f1 wr1 t1' m2]
  let ?t2 = "?t1\<lparr>status := ''done'', updated_at := clock w1 (Suc (ticks w1)),
                  subtasks := ?done (subtasks ?t1)\<rparr>"
  from ok(3) obtain ts2 where
    f2: "tasksFile w2 = Content (?d1\<lparr>tasks := ts2\<rparr>)" and t2: "find ?P ts2 = Some ?t2"
    and same: "\<forall>h :: task \<Rightarrow> task. h ?t2 = h ?t1 \<longrightarrow> map h ts2 = map h (tasks ?d1)"
    by blast
  have idem: "?done (?done (subtasks t0)) = ?done (subtasks t0)"
    by (rule map_done_idem [OF allDone_map_done])
  have eq: "?t2 = ?t1\<lparr>updated_at := updated_at ?t2\<rparr>"
    by (simp add: idem)
  have "map (\<lambda>t. t\<lparr>updated_at := 0\<rparr>) ts2 = map (\<lambda>t. t\<lparr>updated_at := 0\<rparr>) (tasks ?d1)"
    using same [THEN spec, of "\<lambda>t. t\<lparr>updated_at := 0\<rparr>"] by (simp add: idem)
  then have unchanged: "map (\<lambda>t. t\<lparr>updated_at := 0\<rparr>) (storedTasks w2)
               = map (\<lambda>t. t\<lparr>updated_at := 0\<rparr>) (storedTasks w1)"
    using f1 f2 by (simp add: storedTasks_def)
  have s1: "storedTask (parseInt tok) w1 = Some ?t1" using f1 t1 by (simp add: storedTask_def)
  have s2: "storedTask (parseInt tok) w2 = Some ?t2" using f2 t2 by (simp add: storedTask_def)
  have "history w2 = history w1
        \<or> (\<exists>e. history w2 = history w1 @ [e] \<and> action e = ''update''
                \<and> Num (taskId e) = parseInt tok)"
    using ok(7) by auto
  then obtain es where es: "history w2 = history w1 @ es" "length es \<le> 1"
    "list_all (\<lambda>e. Num (taskId e) = parseInt tok \<and> action e = ''update'') es"
  proof (elim disjE exE conjE)
    assume "history w2 = history w1"
    then show ?thesis by (intro that [of "[]"]) simp_all
  next
    fix e
    assume "history w2 = history w1 @ [e]" "action e = ''update''" "Num (taskId e) = parseInt tok"
    then show ?thesis by (intro that [of "[e]"]) simp_all
  qed
  show ?thesis
  proof (intro exI conjI)
    show "o2 = Returned r2" by (rule o2)
    show "success r2" by (rule ok(1))
    show "storedTask (parseInt tok) w1 = Some ?t1" by (rule s1)
    show "status ?t1 = ''done''" by simp
    show "storedTask (parseInt tok) w2 = Some ?t2" by (rule s2)
    show "?t2 = ?t1\<lparr>updated_at := updated_at ?t2\<rparr>" by (rule eq)
    show "map (\<lambda>t. t\<lparr>updated_at := 0\<rparr>) (storedTasks w2)
          = map (\<lambda>t. t\<lparr>updated_at := 0\<rparr>) (storedTasks w1)" by (rule unchanged)
    show "history w2 = history w1 @ es" by (rule es(1))
    show "length es \<le> 1" by (rule es(2))
    show "list_all (\<lambda>e. Num (taskId e) = parseInt tok \<and> action e = ''update'') es" by (rule es(3))
  qed
qed

theorem C9_completeTask_idempotent_witness:
  "map_option status
     (storedTask (Num 1)
        (snd (completeTaskWithContextUpdate (str ''1'') None
           (snd (completeTaskWithContextUpdate (str ''1'') None
              (exWorld [exTask 1 ''pending'' 1 [exSubtask ''1.1'' ''pending'']]))))))
     = Some ''done''
   \<and> length (history
        (snd (completeTaskWithContextUpdate (str ''1'') None
           (snd (completeTaskWithContextUpdate (str ''1'') None
              (exWorld [exTask 1 ''pending'' 1 [exSubtask ''1.1'' ''pending'']]))))))
     \<le> Suc (length (history
           (snd (completeTaskWithContextUpdate (str ''1'') None
              (exWorld [exTask 1 ''pending'' 1 [exSubtask ''1.1'' ''pending'']])))))"
proof -
  let ?W0 = "exWorld [exTask 1 ''pending'' 1 [exSubtask ''1.1'' ''pending'']]"
  let ?D0 = "\<lparr>project = ''P'', version = ''1.0.0'',
              tasks = [exTask 1 ''pending'' 1 [exSubtask ''1.1'' ''pending'']]\<rparr>"
  let ?m1 = "completeMainTask (str ''1'') None (parseInt (str ''1'')) ?D0 ?W0"
  let ?w1 = "snd (completeTaskWithContextUpdate (str ''1'') None ?W0)"
  let ?c2 = "completeTaskWithContextUpdate (str ''1'') None ?w1"
  have nd: "\<not> includes_char (cu CHR ''.'') (str ''1'')"
    by (simp add: includes_char_str)
  have d: "tasksFile ?W0 = Content ?D0" "tasksWritable ?W0"
    by (simp_all add: exWorld_def)
  have t0: "find (\<lambda>t. Num (task_id t) = parseInt (str ''1'')) (tasks ?D0)
            = Some (exTask 1 ''pending'' 1 [exSubtask ''1.1'' ''pending''])"
    by (simp add: parseInt_1 exTask_def)
  have c: "completeTaskWithContextUpdate (str ''1'') None ?W0 = (Returned (fst ?m1), snd ?m1)"
    by (rule complete_plain [OF d(1) nd])
  then have c1: "completeTaskWithContextUpdate (str ''1'') None ?W0 = (Returned (fst ?m1), ?w1)"
    by simp
  have m1: "?m1 = (fst ?m1, snd ?m1)"
    by simp
  have ok1: "success (fst ?m1)"
    by (rule completeMainTask_ok(1) [OF d t0 m1])
  have c2: "?c2 = (fst ?c2, snd ?c2)"
    by simp
  from C9_completeTask_idempotent [OF nd c1 ok1 c2] obtain t1 t2 es where
    s2: "storedTask (parseInt (str ''1'')) (snd ?c2) = Some t2"
    and eq: "t2 = t1\<lparr>updated_at := updated_at t2\<rparr>"
    and st: "status t1 = ''done''"
    and h: "history (snd ?c2) = history ?w1 @ es" "length es \<le> 1"
    by blast
  from arg_cong [OF eq, of status] st have "status t2 = ''done''"
    by simp
  with s2 have "map_option status (storedTask (Num 1) (snd ?c2)) = Some ''done''"
    by (simp add: parseInt_1)
  moreover from h have "length (history (snd ?c2)) \<le> Suc (length (history ?w1))"
    by simp
  ultimately show ?thesis by simp
qed

text \<open>
  C1. The rollup, on the task file the complete command leaves (complete.js, with the
  task file writable). For a dotted id whose parent task and subtask exist, the stored
  parent afterwards has the found subtask marked done and its status is done if all its
  subtasks are then done and is unchanged otherwise; in particular, completing the only
  subtask that was not yet done makes the parent done. For a task id, the stored task
  afterwards is done and every one of its subtasks is done.
\<close>

theorem C1_rollup:
  fixes tok :: jsstring
  defines "pid \<equiv> parseInt_opt (nth_opt (split_on (cu CHR ''.'') tok) 0)"
  defines "mark \<equiv> update_first (\<lambda>st. strict_eq_str (st_id st) tok) (\<lambda>st. st\<lparr>st_status := ''done''\<rparr>)"
  assumes d: "tasksFile w = Content d" and wr: "tasksWritable w"
  shows "(\<forall>p st. includes_char (cu CHR ''.'') tok \<and> storedTask pid w = Some p
            \<and> find (\<lambda>st. strict_eq_str (st_id st) tok) (subtasks p) = Some st \<longrightarrow>
            (\<exists>p'. storedTask pid (snd (completeTaskWithContextUpdate tok summ w)) = Some p'
               \<and> subtasks p' = mark (subtasks p)
               \<and> status p' = (if allDone (mark (subtasks p)) then ''done'' else status p)
               \<and> (filter (\<lambda>x. st_status x \<noteq> ''done'') (subtasks p) = [st] \<longrightarrow>
                    status p' = ''done'' \<and> allDone (subtasks p'))))
       \<and> (\<forall>t. \<not> includes_char (cu CHR ''.'') tok \<and> storedTask (parseInt tok) w = Some t \<longrightarrow>
            (\<exists>t'. storedTask (parseInt tok) (snd (completeTaskWithContextUpdate tok summ w)) = Some t'
               \<and> status t' = ''done''
               \<and> subtasks t' = map (\<lambda>st. st\<lparr>st_status := ''done''\<rparr>) (subtasks t)
               \<and> allDone (subtasks t')))"
proof (intro conjI allI impI)
  fix p st
  assume a: "includes_char (cu CHR ''.'') tok \<and> storedTask pid w = Some p
            \<and> find (\<lambda>st. strict_eq_str (st_id st) tok) (subtasks p) = Some st"
  let ?c = "completeSubtask tok summ pid d w"
  from a d have p: "find (\<lambda>t. Num (task_id t) = pid) (tasks d) = Some p"
    by (simp add: storedTask_def)
  from a have st: "find (\<lambda>st. strict_eq_str (st_id st) tok) (subtasks p) = Some st"
    by simp
  have c: "?c = (fst ?c, snd ?c)" by simp
  have w': "snd (completeTaskWithContextUpdate tok summ w) = snd ?c"
    using complete_dotted [OF d, of tok summ] a by (simp add: pid_def)
  from completeSubtask_ok(3) [OF d wr p [unfolded pid_def] st c [unfolded pid_def]]
  obtain ts' u where
    tf: "tasksFile (snd ?c) = Content (d\<lparr>tasks := ts'\<rparr>)"
    and f: "find (\<lambda>t. Num (task_id t) = pid) ts'
            = Some (p\<lparr>subtasks := mark (subtasks p),
                      status := (if allDone (mark (subtasks p)) then ''done'' else status p),
                      updated_at := u\<rparr>)"
    unfolding pid_def mark_def by blast
  let ?p' = "p\<lparr>subtasks := mark (subtasks p),
                status := (if allDone (mark (subtasks p)) then ''done'' else status p),
                updated_at := u\<rparr>"
  have s: "storedTask pid (snd (completeTaskWithContextUpdate tok summ w)) = Some ?p'"
    using tf f w' by (simp add: storedTask_def)
  have l: "allDone (mark (subtasks p))" if "filter (\<lambda>x. st_status x \<noteq> ''done'') (subtasks p) = [st]"
    unfolding mark_def by (rule last_pending_makes_allDone [OF st that])
  show "\<exists>p'. storedTask pid (snd (completeTaskWithContextUpdate tok summ w)) = Some p'
               \<and> subtasks p' = mark (subtasks p)
               \<and> status p' = (if allDone (mark (subtasks p)) then ''done'' else status p)
               \<and> (filter (\<lambda>x. st_status x \<noteq> ''done'') (subtasks p) = [st] \<longrightarrow>
                    status p' = ''done'' \<and> allDone (subtasks p'))"
  proof (intro exI [of _ ?p'] conjI impI)
    show "storedTask pid (snd (completeTaskWithContextUpdate tok summ w)) = Some ?p'" by (rule s)
    show "subtasks ?p' = mark (subtasks p)" by simp
    show "status ?p' = (if allDone (mark (subtasks p)) then ''done'' else status p)" by simp
    show "status ?p' = ''done''" if "filter (\<lambda>x. st_status x \<noteq> ''done'') (subtasks p) = [st]"
      using l [OF that] by simp
    show "allDone (subtasks ?p')" if "filter (\<lambda>x. st_status x \<noteq> ''done'') (subtasks p) = [st]"
      using l [OF that] by simp
  qed
next
  fix t
  assume a: "\<not> includes_char (cu CHR ''.'') tok \<and> storedTask (parseInt tok) w = Some t"
  let ?c = "completeMainTask tok summ (parseInt tok) d w"
  from a d have t: "find (\<lambda>t. Num (task_id t) = parseInt tok) (tasks d) = Some t"
    by (simp add: storedTask_def)
  have c: "?c = (fst ?c, snd ?c)" by simp
  have w': "snd (completeTaskWithContextUpdate tok summ w) = snd ?c"
    using complete_plain [OF d, of tok summ] a by simp
  let ?t' = "t\<lparr>status := ''done'', updated_at := clock w (Suc (ticks w)),
                subtasks := map (\<lambda>st. st\<lparr>st_status := ''done''\<rparr>) (subtasks t)\<rparr>"
  from completeMainTask_ok(3) [OF d wr t c]
  obtain ts' where
    tf: "tasksFile (snd ?c) = Content (d\<lparr>tasks := ts'\<rparr>)"
    and f: "find (\<lambda>t. Num (task_id t) = parseInt tok) ts' = Some ?t'"
    by blast
  have s: "storedTask (parseInt tok) (snd (completeTaskWithContextUpdate tok summ w)) = Some ?t'"
    using tf f w' by (simp add: storedTask_def)
  show "\<exists>t'. storedTask (parseInt tok) (snd (completeTaskWithContextUpdate tok summ w)) = Some t'
               \<and> status t' = ''done''
               \<and> subtasks t' = map (\<lambda>st. st\<lparr>st_status := ''done''\<rparr>) (subtasks t)
               \<and> allDone (subtasks t')"
  proof (intro exI [of _ ?t'] conjI)
    show "storedTask (parseInt tok) (snd (completeTaskWithContextUpdate tok summ w)) = Some ?t'"
      by (rule s)
    show "status ?t' = ''done''" by simp
    show "subtasks ?t' = map (\<lambda>st. st\<lparr>st_status := ''done''\<rparr>) (subtasks t)" by simp
    show "allDone (subtasks ?t')" by (simp add: allDone_map_done)
  qed
qed

theorem C1_rollup_witness:
  "map_option status
     (storedTask (Num 2)
        (snd (completeTaskWithContextUpdate (str ''2.2'') None
           (exWorld [exTask 2 ''pending'' 1 [exSubtask ''2.1'' ''done'', exSubtask ''2.2'' ''pending'']]))))
     = Some ''done''
   \<and> map_option (\<lambda>t. (status t, allDone (subtasks t)))
     (storedTask (Num 2)
        (snd (completeTaskWithContextUpdate (str ''2'') None
           (exWorld [exTask 2 ''pending'' 1 [exSubtask ''2.1'' ''done'', exSubtask ''2.2'' ''pending'']]))))
     = Some (''done'', True)"
proof -
  let ?p = "exTask 2 ''pending'' 1 [exSubtask ''2.1'' ''done'', exSubtask ''2.2'' ''pending'']"
  let ?W0 = "exWorld [?p]"
  have a: "includes_char (cu CHR ''.'') (str ''2.2'') \<and> storedTask (Num 2) ?W0 = Some ?p
           \<and> find (\<lambda>st. strict_eq_str (st_id st) (str ''2.2'')) (subtasks ?p) = Some (exSubtask ''2.2'' ''pending'')"
    by (simp add: includes_char_str storedTask_def exWorld_simps exTask_def exSubtask_def
        strict_eq_str_def)
  have l: "filter (\<lambda>x. st_status x \<noteq> ''done'') (subtasks ?p) = [exSubtask ''2.2'' ''pending'']"
    by (simp add: exTask_def exSubtask_def)
  have b: "\<not> includes_char (cu CHR ''.'') (str ''2'') \<and> storedTask (parseInt (str ''2'')) ?W0 = Some ?p"
    by (simp add: includes_char_str storedTask_def exWorld_simps exTask_def parseInt_2)
  note c = C1_rollup [OF exWorld_simps(1,2) [of "[?p]"], of "(str ''2.2'')" None, unfolded first_part_22]
  note c' = C1_rollup [OF exWorld_simps(1,2) [of "[?p]"], of "(str ''2'')" None, unfolded parseInt_2]
  from c [THEN conjunct1, THEN spec, THEN spec, THEN mp, OF a] l
  have 1: "map_option status
     (storedTask (Num 2) (snd (completeTaskWithContextUpdate (str ''2.2'') None ?W0))) = Some ''done''"
    by auto
  from c' [THEN conjunct2, THEN spec, THEN mp, OF b [unfolded parseInt_2]]
  have 2: "map_option (\<lambda>t. (status t, allDone (subtasks t)))
     (storedTask (Num 2) (snd (completeTaskWithContextUpdate (str ''2'') None ?W0))) = Some (''done'', True)"
    by auto
  from 1 2 show ?thesis by simp
qed

text \<open>
  C6, at the scenario of the claim: one pending task with id 1, no context file yet,
  \<open>completeTaskWithContextUpdate "1"\<close>. The task is stored as done and no task is
  active afterwards, as claimed; but the one history entry written has the action
  \<open>update\<close>, not \<open>complete\<close>: the command saves the task as done before it
  calls \<open>updateTaskStatus\<close>, which reads the old status back from the file
  (\<open>completeMainTask_healthy\<close> shows this for every task and world with usable files).
\<close>

theorem C6_complete_logs_update:
  "map action
     (history (snd (completeTaskWithContextUpdate (str ''1'') None (exWorld [exTask 1 ''pending'' 1 []]))))
     = [''update'']
   \<and> map_option status
     (storedTask (Num 1)
        (snd (completeTaskWithContextUpdate (str ''1'') None (exWorld [exTask 1 ''pending'' 1 []]))))
     = Some ''done''
   \<and> storedActiveTask
        (snd (completeTaskWithContextUpdate (str ''1'') None (exWorld [exTask 1 ''pending'' 1 []])))
     = None"
proof -
  let ?t = "exTask 1 ''pending'' 1 []"
  let ?W0 = "exWorld [?t]"
  let ?D0 = "\<lparr>project = ''P'', version = ''1.0.0'', tasks = [?t]\<rparr>"
  let ?m = "completeMainTask (str ''1'') None (parseInt (str ''1'')) ?D0 ?W0"
  have nd: "\<not> includes_char (cu CHR ''.'') (str ''1'')"
    by (simp add: includes_char_str)
  have t0: "find (\<lambda>t. Num (task_id t) = parseInt (str ''1'')) (tasks ?D0) = Some ?t"
    by (simp add: parseInt_1 exTask_def)
  have m: "?m = (fst ?m, snd ?m)" by simp
  have w': "snd (completeTaskWithContextUpdate (str ''1'') None ?W0) = snd ?m"
    using complete_plain [OF exWorld_simps(1) [of "[?t]"] nd, of None] by simp
  from completeMainTask_healthy(1) [OF exWorld_simps(3,4,1,2) t0 m]
  have 1: "map action (history (snd ?m)) = [''update'']"
    by (auto simp: exWorld_simps)
  from completeMainTask_ok(3) [OF exWorld_simps(1,2) t0 m] obtain ts' r where
    "tasksFile (snd ?m) = Content (?D0\<lparr>tasks := ts'\<rparr>)"
    "find (\<lambda>t. Num (task_id t) = parseInt (str ''1'')) ts' = Some r" "status r = ''done''"
    by fastforce
  then have 2: "map_option status (storedTask (Num 1) (snd ?m)) = Some ''done''"
    by (simp add: storedTask_def parseInt_1)
  have 3: "storedActiveTask (snd ?m) = None"
    by (rule completeMainTask_healthy(2) [OF exWorld_simps(3,4,1,2) t0 m])
  from 1 2 3 show ?thesis by (simp add: w')
qed

text \<open>
  C5, at the scenario of the claim: task 2 with the subtasks 2.1 (done) and 2.2
  (pending), \<open>completeTaskWithContextUpdate "2.2"\<close>. The rollup fires and the parent
  is stored as done, but the two history entries written both have the action
  \<open>update\<close>; none has the action \<open>complete\<close>, for the reason given at C6
  (\<open>completeSubtask_healthy\<close>). Without a rollup (2.1 of two pending subtasks) one
  \<open>update\<close> entry is written, as claimed.
\<close>

theorem C5_rollup_logs_two_updates:
  "map action
     (history (snd (completeTaskWithContextUpdate (str ''2.2'') None
        (exWorld [exTask 2 ''pending'' 1 [exSubtask ''2.1'' ''done'', exSubtask ''2.2'' ''pending'']]))))
     = [''update'', ''update'']
   \<and> map_option status
     (storedTask (Num 2) (snd (completeTaskWithContextUpdate (str ''2.2'') None
        (exWorld [exTask 2 ''pending'' 1 [exSubtask ''2.1'' ''done'', exSubtask ''2.2'' ''pending'']]))))
     = Some ''done''
   \<and> map action
     (history (snd (completeTaskWithContextUpdate (str ''2.1'') None
        (exWorld [exTask 2 ''pending'' 1 [exSubtask ''2.1'' ''pending'', exSubtask ''2.2'' ''pending'']]))))
     = [''update'']"
proof -
  let ?p = "exTask 2 ''pending'' 1 [exSubtask ''2.1'' ''done'', exSubtask ''2.2'' ''pending'']"
  let ?q = "exTask 2 ''pending'' 1 [exSubtask ''2.1'' ''pending'', exSubtask ''2.2'' ''pending'']"
  let ?cp = "completeSubtask (str ''2.2'') None (parseInt_opt (nth_opt (split_on (cu CHR ''.'') (str ''2.2'')) 0))
               \<lparr>project = ''P'', version = ''1.0.0'', tasks = [?p]\<rparr> (exWorld [?p])"
  let ?cq = "completeSubtask (str ''2.1'') None (parseInt_opt (nth_opt (split_on (cu CHR ''.'') (str ''2.1'')) 0))
               \<lparr>project = ''P'', version = ''1.0.0'', tasks = [?q]\<rparr> (exWorld [?q])"
  have dp: "includes_char (cu CHR ''.'') (str ''2.2'')" and dq: "includes_char (cu CHR ''.'') (str ''2.1'')"
    by (simp_all add: includes_char_str)
  have wp: "snd (completeTaskWithContextUpdate (str ''2.2'') None (exWorld [?p])) = snd ?cp"
    using complete_dotted [OF exWorld_simps(1) [of "[?p]"] dp, of None] by simp
  have wq: "snd (completeTaskWithContextUpdate (str ''2.1'') None (exWorld [?q])) = snd ?cq"
    using complete_dotted [OF exWorld_simps(1) [of "[?q]"] dq, of None] by simp
  have fp: "find (\<lambda>t. Num (task_id t) = parseInt_opt (nth_opt (split_on (cu CHR ''.'') (str ''2.2'')) 0))
              (tasks \<lparr>project = ''P'', version = ''1.0.0'', tasks = [?p]\<rparr>) = Some ?p"
    by (simp add: parseInt_opt_def split_on_str parseInt_2 exTask_def)
  have fq: "find (\<lambda>t. Num (task_id t) = parseInt_opt (nth_opt (split_on (cu CHR ''.'') (str ''2.1'')) 0))
              (tasks \<lparr>project = ''P'', version = ''1.0.0'', tasks = [?q]\<rparr>) = Some ?q"
    by (simp add: parseInt_opt_def split_on_str parseInt_2 exTask_def)
  have sp: "find (\<lambda>st. strict_eq_str (st_id st) (str ''2.2'')) (subtasks ?p) = Some (exSubtask ''2.2'' ''pending'')"
    by (simp add: exTask_def exSubtask_def strict_eq_str_def)
  have sq: "find (\<lambda>st. strict_eq_str (st_id st) (str ''2.1'')) (subtasks ?q) = Some (exSubtask ''2.1'' ''pending'')"
    by (simp add: exTask_def exSubtask_def strict_eq_str_def)
  have ap: "allDone (update_first (\<lambda>st. strict_eq_str (st_id st) (str ''2.2''))
               (\<lambda>st. st\<lparr>st_status := ''done''\<rparr>) (subtasks ?p))"
    by (simp add: exTask_def exSubtask_def strict_eq_str_def allDone_def)
  have aq: "\<not> allDone (update_first (\<lambda>st. strict_eq_str (st_id st) (str ''2.1''))
               (\<lambda>st. st\<lparr>st_status := ''done''\<rparr>) (subtasks ?q))"
    by (simp add: exTask_def exSubtask_def strict_eq_str_def allDone_def)
  have cp: "?cp = (fst ?cp, snd ?cp)" and cq: "?cq = (fst ?cq, snd ?cq)" by simp_all
  from completeSubtask_healthy(1) [OF exWorld_simps(3,4,1,2) fp sp cp] ap
  have 1: "map action (history (snd ?cp)) = [''update'', ''update'']"
    by (auto simp: exWorld_simps)
  from completeSubtask_ok(3) [OF exWorld_simps(1,2) fp sp cp] obtain ts' r where
    "tasksFile (snd ?cp) = Content (\<lparr>project = ''P'', version = ''1.0.0'', tasks = [?p]\<rparr>\<lparr>tasks := ts'\<rparr>)"
    "find (\<lambda>t. Num (task_id t) = parseInt_opt (nth_opt (split_on (cu CHR ''.'') (str ''2.2'')) 0)) ts' = Some r"
    "status r = (if allDone (update_first (\<lambda>st. strict_eq_str (st_id st) (str ''2.2''))
               (\<lambda>st. st\<lparr>st_status := ''done''\<rparr>) (subtasks ?p)) then ''done'' else status ?p)"
    by fastforce
  with ap have 2: "map_option status (storedTask (Num 2) (snd ?cp)) = Some ''done''"
    by (simp add: storedTask_def parseInt_opt_def split_on_str parseInt_2)
  from completeSubtask_healthy(1) [OF exWorld_simps(3,4,1,2) fq sq cq] aq
  have 3: "map action (history (snd ?cq)) = [''update'']"
    by (auto simp: exWorld_simps)
  from 1 2 3 show ?thesis by (simp add: wp wq)
qed

end
